theory Spec2Isabelle
  imports Main "HOL-Library.Word"
begin

unbundle bit_operations_syntax

section \<open>Buffers, strings and the key table (utils.ts)\<close>

text \<open>
  A Node \<open>Buffer\<close> is a sequence of bytes. A JavaScript string is a sequence of UTF-16
  code units, kept here as natural numbers below \<open>0x10000\<close>.
\<close>

type_synonym buffer = "8 word list"
type_synonym jsstring = "nat list"

text \<open>\<open>keys\<close>: the byte chunks the handlers compare their input with (\<open>Buffer.equals\<close>).\<close>

definition keys_SIGINT :: buffer where
  "keys_SIGINT = [0x03]"

definition keys_left :: buffer where
  "keys_left = [0x1b, 0x5b, 0x44]"

definition keys_right :: buffer where
  "keys_right = [0x1b, 0x5b, 0x43]"

definition keys_k :: buffer where
  "keys_k = [0x6b]"

subsection \<open>\<open>Buffer.toString('utf-8')\<close>\<close>

text \<open>
  The platform's UTF-8 decoder, as the WHATWG Encoding Standard gives it and Node
  implements it: an ill-formed sequence yields U+FFFD for its maximal valid prefix and
  the offending byte is read again as the start of a new sequence; input that ends inside
  a sequence yields one U+FFFD; a byte order mark is kept. The arguments are the code
  point collected so far, the number of continuation bytes still needed and the bounds
  allowed for the next continuation byte.
\<close>

function utf8_decode :: "nat \<Rightarrow> nat \<Rightarrow> nat \<Rightarrow> nat \<Rightarrow> nat list \<Rightarrow> nat list" where
  "utf8_decode cp need lo hi [] = (if need \<noteq> 0 then [0xFFFD] else [])"
| "utf8_decode cp need lo hi (b # bs) =
     (if need = 0 then
        (if b \<le> 0x7F then b # utf8_decode 0 0 0x80 0xBF bs
         else if 0xC2 \<le> b \<and> b \<le> 0xDF then utf8_decode (b AND 0x1F) 1 0x80 0xBF bs
         else if 0xE0 \<le> b \<and> b \<le> 0xEF then
           utf8_decode (b AND 0xF) 2 (if b = 0xE0 then 0xA0 else 0x80)
             (if b = 0xED then 0x9F else 0xBF) bs
         else if 0xF0 \<le> b \<and> b \<le> 0xF4 then
           utf8_decode (b AND 0x7) 3 (if b = 0xF0 then 0x90 else 0x80)
             (if b = 0xF4 then 0x8F else 0xBF) bs
         else 0xFFFD # utf8_decode 0 0 0x80 0xBF bs)
      else if b < lo \<or> hi < b then 0xFFFD # utf8_decode 0 0 0x80 0xBF (b # bs)
      else if need = 1 then (cp * 64 + (b AND 0x3F)) # utf8_decode 0 0 0x80 0xBF bs
      else utf8_decode (cp * 64 + (b AND 0x3F)) (need - 1) 0x80 0xBF bs)"
  by pat_completeness auto
termination
  by (relation "measure (\<lambda>(cp, need, lo, hi, bs). 2 * length bs + (if need = 0 then 0 else 1))")
    auto

text \<open>A code point above the basic plane becomes a surrogate pair.\<close>

definition utf16_units :: "nat \<Rightarrow> jsstring" where
  "utf16_units cp =
     (if cp < 0x10000 then [cp]
      else [0xD800 + (cp - 0x10000) div 0x400, 0xDC00 + (cp - 0x10000) mod 0x400])"

definition toString_utf8 :: "buffer \<Rightarrow> jsstring" where
  "toString_utf8 data = concat (map utf16_units (utf8_decode 0 0 0x80 0xBF (map unat data)))"

text \<open>\<open>String.prototype.charCodeAt\<close>: \<open>None\<close> stands for \<open>NaN\<close>, the answer out of range.\<close>

definition charCodeAt :: "jsstring \<Rightarrow> nat \<Rightarrow> nat option" where
  "charCodeAt s i = (if i < length s then Some (s ! i) else None)"

text \<open>
  The operator \<open>&\<close> converts both operands with ToInt32 first; \<open>NaN\<close> becomes 0 and a code
  unit is its own value.
\<close>

definition bitand_js :: "nat option \<Rightarrow> nat \<Rightarrow> nat" where
  "bitand_js x m = (case x of None \<Rightarrow> 0 | Some c \<Rightarrow> c AND m)"

text \<open>The regular expression \<open>/^\u001b\[M/\<close>: the string starts with ESC, \<open>[\<close>, \<open>M\<close>.\<close>

definition matchMouseEvent :: "jsstring \<Rightarrow> bool" where
  "matchMouseEvent event = (take 3 event = [0x1b, 0x5b, 0x4d])"

text \<open>\<open>isScrollEvent\<close>: \<open>None\<close> is \<open>null\<close>, otherwise the direction \<open>-1\<close> or \<open>1\<close>.\<close>

definition isScrollEvent :: "buffer \<Rightarrow> int option" where
  "isScrollEvent data =
     (let event = toString_utf8 data in
      if \<not> matchMouseEvent event then None
      else if bitand_js (charCodeAt event 3) 96 \<noteq> 96 then None
      else Some (if bitand_js (charCodeAt event 3) 1 \<noteq> 0 then - 1 else 1))"

section \<open>History buffers\<close>

type_synonym line = string

text \<open>
  \<open>Array.prototype.splice(0, n)\<close> on \<open>h\<close>: the delete count is clamped to the range from 0
  to the length, and the elements after it stay, in order.
\<close>

definition splice0 :: "'a list \<Rightarrow> int \<Rightarrow> 'a list" where
  "splice0 h n = drop (nat (min (max n 0) (int (length h)))) h"

text \<open>
  The \<open>data\<close> listener that \<open>trackHistory\<close> puts on a child's stdout: the buffer before,
  the chunk, the buffer after.
\<close>

definition trackHistory_data :: "int \<Rightarrow> line list \<Rightarrow> line \<Rightarrow> line list" where
  "trackHistory_data retention history data =
     (let h = history @ [data] in
      if int (length h) > retention then splice0 h (int (length h) - retention) else h)"

text \<open>
  The parameter of \<open>trackHistory\<close> is declared \<open>retention: number = 1\<close>: a call that leaves
  it out (\<open>None\<close>) keeps one chunk.
\<close>

definition trackHistory_retention :: "int option \<Rightarrow> int" where
  "trackHistory_retention r = (case r of None \<Rightarrow> 1 | Some n \<Rightarrow> n)"

section \<open>JavaScript arithmetic and arrays\<close>

text \<open>
  The numbers of the session state (\<open>tab\<close>, \<open>lines\<close>, \<open>cursor\<close>) only ever hold integers,
  so they are modelled as \<open>int\<close>. The operator \<open>%\<close> takes the sign of the dividend. With a
  zero divisor JavaScript gives \<open>NaN\<close>; the only divisor in the program is
  \<open>histories.length\<close>, and when that is 0 every index into \<open>histories\<close> is \<open>undefined\<close>,
  whatever the index is.
\<close>

definition js_rem :: "int \<Rightarrow> int \<Rightarrow> int" where
  "js_rem a b = sgn a * (\<bar>a\<bar> mod \<bar>b\<bar>)"

text \<open>\<open>xs[i]\<close>: \<open>None\<close> stands for \<open>undefined\<close>.\<close>

definition js_index :: "'a list \<Rightarrow> int \<Rightarrow> 'a option" where
  "js_index xs i = (if 0 \<le> i \<and> i < int (length xs) then Some (xs ! nat i) else None)"

text \<open>\<open>xs.slice(start, fin)\<close>: a negative bound counts from the end.\<close>

definition js_slice :: "'a list \<Rightarrow> int \<Rightarrow> int \<Rightarrow> 'a list" where
  "js_slice xs start fin =
     (let len = int (length xs);
          k = (if start < 0 then max (len + start) 0 else min start len);
          final = (if fin < 0 then max (len + fin) 0 else min fin len)
      in take (nat (final - k)) (drop (nat k) xs))"

text \<open>\<open>xs[i].push(...ys)\<close> on an array of arrays, for an index that is in range.\<close>

definition push_at :: "'a list list \<Rightarrow> nat \<Rightarrow> 'a list \<Rightarrow> 'a list list" where
  "push_at hs i ys = (if i < length hs then hs[i := hs ! i @ ys] else hs)"

text \<open>Numbers inside template literals are printed in decimal.\<close>

function string_of_nat :: "nat \<Rightarrow> string" where
  "string_of_nat n =
     (if n < 10 then [''0123456789'' ! n]
      else string_of_nat (n div 10) @ [''0123456789'' ! (n mod 10)])"
  by pat_completeness auto
termination
  by (relation "measure id") auto

declare string_of_nat.simps [simp del]

definition string_of_int :: "int \<Rightarrow> string" where
  "string_of_int i = (if i < 0 then ''-'' @ string_of_nat (nat (- i)) else string_of_nat (nat i))"

fun join :: "string \<Rightarrow> string list \<Rightarrow> string" where
  "join sep [] = []"
| "join sep [x] = x"
| "join sep (x # y # ys) = x @ sep @ join sep (y # ys)"

section \<open>Effects and outcomes\<close>

text \<open>
  What a handler does to the outside world is recorded as a list of effects, in the
  order they happen. A handler either returns, or it stops the program: by
  \<open>process.exit\<close>, or by an uncaught \<open>TypeError\<close> (reading a property of \<open>undefined\<close>).
\<close>

datatype signal = SIGTERM | SIGINT

datatype effect =
    SetRawMode bool
  | Clear
  | Write line
  | Kill nat signal

datatype halt = TypeError | ProcessExit int

type_synonym 'a io = "effect list \<times> (halt + 'a)"

definition bind_io :: "'a io \<Rightarrow> ('a \<Rightarrow> 'b io) \<Rightarrow> 'b io" where
  "bind_io m f =
     (case m of
        (es, Inl h) \<Rightarrow> (es, Inl h)
      | (es, Inr a) \<Rightarrow> (case f a of (es', r) \<Rightarrow> (es @ es', r)))"

definition enableMouseEvents :: "effect list" where
  "enableMouseEvents = [Write (CHR 0x1B # ''[?1005h''), Write (CHR 0x1B # ''[?1003h'')]"

definition disableMouseEvents :: "effect list" where
  "disableMouseEvents = [Write (CHR 0x1B # ''[?1005l''), Write (CHR 0x1B # ''[?1003l'')]"

section \<open>The session state\<close>

text \<open>
  A child process handle is only ever used to subscribe to its output and exit and to
  signal it; it is kept as the command it was spawned from (the optional spawn options
  are never read), and a signal names the process by its position in \<open>processes\<close>.
\<close>

type_synonym commandWithArgs = "string \<times> string list"

datatype ChildProcess = ChildProcess commandWithArgs

record state =
  tab :: int
  lines :: int
  processes :: "ChildProcess list"
  histories :: "line list list"
  cursor :: int

definition initialState :: state where
  "initialState = \<lparr> tab = 0, lines = 1, processes = [], histories = [], cursor = 0 \<rparr>"

section \<open>Rendering\<close>

definition tab_label :: "int \<Rightarrow> nat \<Rightarrow> string" where
  "tab_label t index =
     (let selected = (if int index = t then ''[*]'' else ''[ ]'')
      in if index = 0 then ''main '' @ selected @ '' ''
         else '' process '' @ string_of_nat index @ '' '' @ selected @ '' '')"

definition render :: "state \<Rightarrow> halt + effect list" where
  "render s =
     (let tabs = join ''|'' (map (tab_label (tab s)) [0..<length (histories s)]);
          header = [''Use the left and right arrow keys to navigate between processes'' @ [CHR 0x0A],
                    [CHR 0x0A], tabs @ [CHR 0x0A], [CHR 0x0A]]
      in case js_index (histories s) (tab s) of
           None \<Rightarrow> Inl TypeError
         | Some current \<Rightarrow>
             (let endLineIndex = min (cursor s + lines s) (int (length current));
                  view = header @ js_slice current (cursor s) endLineIndex
              in Inr (Clear # map Write view)))"

text \<open>A call of \<open>render(state)\<close> inside a handler: the state goes through unchanged.\<close>

definition rendered :: "state \<Rightarrow> state io" where
  "rendered s = (case render s of Inl h \<Rightarrow> ([], Inl h) | Inr es \<Rightarrow> (es, Inr s))"

text \<open>The largest cursor for a buffer of the given length: \<open>Math.max(0, length - lines)\<close>.\<close>

definition maxCursor :: "line list \<Rightarrow> int \<Rightarrow> int" where
  "maxCursor current ln = max 0 (int (length current) - ln)"

section \<open>Keyboard and mouse handlers on the state\<close>

definition arrowHandler :: "buffer \<Rightarrow> state \<Rightarrow> state io" where
  "arrowHandler data s =
     (let tab0 = tab s; hs = histories s; ln = lines s;
          afterLeft =
            (if data = keys_left then
               (let s1 = s\<lparr>tab := js_rem (tab0 + int (length hs) - 1) (int (length hs))\<rparr>
                in case js_index hs tab0 of
                     None \<Rightarrow> Inl TypeError
                   | Some current \<Rightarrow> Inr (s1\<lparr>cursor := maxCursor current ln\<rparr>))
             else Inr s)
      in case afterLeft of
           Inl h \<Rightarrow> ([], Inl h)
         | Inr s1 \<Rightarrow>
             (let afterRight =
                    (if data = keys_right then
                       (let s2 = s1\<lparr>tab := js_rem (tab0 + 1) (int (length hs))\<rparr>
                        in case js_index (histories s2) (tab s2) of
                             None \<Rightarrow> Inl TypeError
                           | Some current \<Rightarrow> Inr (s2\<lparr>cursor := maxCursor current ln\<rparr>))
                     else Inr s1)
              in case afterRight of
                   Inl h \<Rightarrow> ([], Inl h)
                 | Inr s3 \<Rightarrow> rendered s3))"

definition scrollHandler :: "buffer \<Rightarrow> state \<Rightarrow> state io" where
  "scrollHandler data s =
     (let tab0 = tab s; hs = histories s; cursor0 = cursor s; ln = lines s
      in case isScrollEvent data of
           None \<Rightarrow> ([], Inr s)
         | Some direction \<Rightarrow>
             (let current = js_index hs tab0;
                  s1 = (if direction = - 1 then s\<lparr>cursor := max 0 (cursor0 - 1)\<rparr> else s);
                  afterDown =
                    (if direction = 1 then
                       (case current of
                          None \<Rightarrow> Inl TypeError
                        | Some c \<Rightarrow> Inr (s1\<lparr>cursor := min (maxCursor c ln) (cursor0 + 1)\<rparr>))
                     else Inr s1)
              in case afterDown of
                   Inl h \<Rightarrow> ([], Inl h)
                 | Inr s2 \<Rightarrow> if cursor s2 \<noteq> cursor0 then rendered s2 else ([], Inr s2)))"

text \<open>
  The stdout \<open>data\<close> listener that \<open>updateActiveTab\<close> gives process \<open>i\<close>. It runs after the
  listener of \<open>trackHistory\<close>, which was registered first.
\<close>

definition updateActiveTab_data :: "nat \<Rightarrow> state \<Rightarrow> state io" where
  "updateActiveTab_data i s =
     (if int i + 1 = tab s then
        (case js_index (histories s) (int i + 1) of
           None \<Rightarrow> ([], Inl TypeError)
         | Some h \<Rightarrow>
             (if cursor s > maxCursor h (lines s) - 2
              then rendered (s\<lparr>cursor := maxCursor h (lines s)\<rparr>)
              else ([], Inr s)))
      else ([], Inr s))"

definition restartHandler :: "buffer \<Rightarrow> state \<Rightarrow> state" where
  "restartHandler data s = (if data = keys_k then s else s)"

section \<open>The session: listeners, events and start-up\<close>

text \<open>
  Besides the state object, a running session holds the listeners that handlers register
  later on: for each child process the \<open>exit\<close> closures put there by \<open>terminateHandler\<close>
  (each is determined by the value of \<open>tab\<close> it captured), and the number of
  \<open>restartHandler\<close> listeners on stdin. \<open>exitCode\<close> is \<open>process.exitCode\<close>, \<open>None\<close> while it is
  \<open>undefined\<close>.

  \<open>state.histories\<close> is assigned once, at start-up, and its slots are never replaced, so
  the array \<open>main.history\<close> is \<open>histories[0]\<close> and the array that the listener of
  \<open>trackHistory\<close> for process \<open>i\<close> owns is \<open>histories[i + 1]\<close>: a push to either is an
  update of that slot.
\<close>

record session =
  state :: state
  exitListeners :: "int list list"
  restartListeners :: nat
  exitCode :: "int option"

text \<open>\<open>main.print\<close>\<close>

definition main_print :: "line \<Rightarrow> state \<Rightarrow> state io" where
  "main_print data s = rendered (s\<lparr>histories := push_at (histories s) 0 [data]\<rparr>)"

text \<open>The lines that the interrupt of a child tab writes into the histories.\<close>

definition sigint_note :: line where
  "sigint_note = ''Received SIGINT'' @ [CHR 0x0A]"

definition exited_message :: "int \<Rightarrow> line" where
  "exited_message t = ''Process '' @ [CHR 0x27] @ string_of_int t @ [CHR 0x27] @ '' exited'' @ [CHR 0x0A]"

definition restart_prompt :: "int \<Rightarrow> line" where
  "restart_prompt t =
     ''Press '' @ [CHR 0x27] @ ''K'' @ [CHR 0x27] @ '' to restart process ''
       @ [CHR 0x27] @ string_of_int t @ [CHR 0x27] @ [CHR 0x0A]"

text \<open>
  The closure that \<open>terminateHandler\<close> registers for the \<open>exit\<close> of a child. It captured
  \<open>tab\<close> and the array \<open>histories[tab]\<close>.
\<close>

definition exitClosure :: "int \<Rightarrow> session \<Rightarrow> session io" where
  "exitClosure t w =
     bind_io (main_print (exited_message t) (state w))
       (\<lambda>s1.
          case js_index (histories s1) t of
            None \<Rightarrow> ([], Inl TypeError)
          | Some currentHistory \<Rightarrow>
              (let s2 = s1\<lparr>histories := (histories s1)
                          [nat t := currentHistory @ [[CHR 0x0A], restart_prompt t]]\<rparr>;
                   w2 = w\<lparr>state := s2, restartListeners := Suc (restartListeners w)\<rparr>
               in if tab s2 = t
                  then bind_io (rendered s2) (\<lambda>s3. ([], Inr (w2\<lparr>state := s3\<rparr>)))
                  else ([], Inr w2)))"

definition terminateHandler :: "buffer \<Rightarrow> session \<Rightarrow> session io" where
  "terminateHandler data w =
     (if data = keys_SIGINT then
        (let s = state w; t = tab s
         in if t = 0 then
              (let code = (case exitCode w of None \<Rightarrow> 0 | Some c \<Rightarrow> c)
               in (disableMouseEvents @ map (\<lambda>i. Kill i SIGTERM) [0..<length (processes s)],
                   Inl (ProcessExit code)))
            else if t > 0 then
              (case js_index (processes s) (t - 1) of
                 None \<Rightarrow> ([], Inl TypeError)
               | Some current \<Rightarrow>
                   (let w1 = w\<lparr>exitListeners := push_at (exitListeners w) (nat (t - 1)) [t]\<rparr>
                    in case js_index (histories s) t of
                         None \<Rightarrow> ([], Inl TypeError)
                       | Some currentHistory \<Rightarrow>
                           bind_io
                             (rendered (s\<lparr>histories := (histories s)
                                            [nat t := currentHistory @ [[CHR 0x0A], sigint_note]]\<rparr>))
                             (\<lambda>s1. ([Kill (nat (t - 1)) SIGINT], Inr (w1\<lparr>state := s1\<rparr>)))))
            else ([], Inr w))
      else ([], Inr w))"

text \<open>What the environment delivers to the session.\<close>

datatype event =
    StdinData buffer
  | ChildData nat line
  | ChildExit nat

text \<open>
  A chunk on stdin goes to \<open>terminateHandler\<close>, \<open>arrowHandler\<close>, \<open>scrollHandler\<close> and then
  to the \<open>restartHandler\<close> listeners, in the order of their registration.
\<close>

definition stdinData :: "buffer \<Rightarrow> session \<Rightarrow> session io" where
  "stdinData data w =
     bind_io (terminateHandler data w)
       (\<lambda>w1. bind_io (arrowHandler data (state w1))
          (\<lambda>s2. bind_io (scrollHandler data s2)
             (\<lambda>s3. ([], Inr (w1\<lparr>state := ((restartHandler data) ^^ restartListeners w1) s3\<rparr>)))))"

text \<open>
  A chunk on the stdout of process \<open>i\<close> goes to the listener of \<open>trackHistory\<close> (retention
  1000, as \<open>viewProcessesInTabs\<close> passes it) and then to the one of \<open>updateActiveTab\<close>.
\<close>

definition childData :: "nat \<Rightarrow> line \<Rightarrow> session \<Rightarrow> session io" where
  "childData i data w =
     (let s = state w;
          s1 = (if Suc i < length (histories s)
                then s\<lparr>histories := (histories s)
                       [Suc i := trackHistory_data (trackHistory_retention (Some 1000))
                                   (histories s ! Suc i) data]\<rparr>
                else s)
      in bind_io (updateActiveTab_data i s1) (\<lambda>s2. ([], Inr (w\<lparr>state := s2\<rparr>))))"

fun run_exit_listeners :: "int list \<Rightarrow> session \<Rightarrow> session io" where
  "run_exit_listeners [] w = ([], Inr w)"
| "run_exit_listeners (t # ts) w = bind_io (exitClosure t w) (run_exit_listeners ts)"

definition childExit :: "nat \<Rightarrow> session \<Rightarrow> session io" where
  "childExit i w =
     (if i < length (exitListeners w) then run_exit_listeners (exitListeners w ! i) w
      else ([], Inr w))"

fun dispatch :: "event \<Rightarrow> session \<Rightarrow> session io" where
  "dispatch (StdinData data) w = stdinData data w"
| "dispatch (ChildData i data) w = (if i < length (processes (state w)) then childData i data w else ([], Inr w))"
| "dispatch (ChildExit i) w = (if i < length (processes (state w)) then childExit i w else ([], Inr w))"

fun run :: "event list \<Rightarrow> session \<Rightarrow> session io" where
  "run [] w = ([], Inr w)"
| "run (e # es) w = bind_io (dispatch e w) (run es)"

text \<open>\<open>viewProcessesInTabs\<close>: start-up, up to the first two frames.\<close>

definition viewProcessesInTabs :: "commandWithArgs list \<Rightarrow> session io" where
  "viewProcessesInTabs commands =
     (let ps = map ChildProcess commands;
          s = initialState\<lparr>processes := ps, histories := [] # map (\<lambda>p. []) ps, lines := 20\<rparr>
      in bind_io (SetRawMode True # enableMouseEvents, Inr s)
           (\<lambda>s. bind_io (main_print (''Initialized!'' @ [CHR 0x0A]) s)
              (\<lambda>s1. bind_io (rendered s1)
                 (\<lambda>s2. ([], Inr \<lparr> state = s2, exitListeners = map (\<lambda>p. []) ps,
                                   restartListeners = 0, exitCode = None \<rparr>)))))"

section \<open>Observations\<close>

text \<open>The state a run ends in, when it neither exited nor threw.\<close>

definition final_state :: "session io \<Rightarrow> state option" where
  "final_state r = (case snd r of Inl h \<Rightarrow> None | Inr w \<Rightarrow> Some (state w))"

text \<open>
  The range the data model gives the cursor:
  \<open>0 \<le> cursor \<le> max(0, length of the active history - lines)\<close>.
\<close>

definition cursor_in_range :: "state \<Rightarrow> bool" where
  "cursor_in_range s =
     (case js_index (histories s) (tab s) of
        None \<Rightarrow> False
      | Some current \<Rightarrow> 0 \<le> cursor s \<and> cursor s \<le> maxCursor current (lines s))"

text \<open>
  The shape of a session as start-up builds it: the active tab is a slot of \<open>histories\<close>,
  which has the main buffer and one buffer per process; there is one list of exit
  closures per process, and a closure on process \<open>i\<close> captured the tab \<open>i + 1\<close>.
\<close>

definition well_formed :: "session \<Rightarrow> bool" where
  "well_formed w =
     (0 \<le> tab (state w) \<and> tab (state w) < int (length (histories (state w))) \<and>
      length (histories (state w)) = Suc (length (processes (state w))) \<and>
      length (exitListeners w) = length (processes (state w)) \<and>
      (\<forall>i < length (exitListeners w). set (exitListeners w ! i) \<subseteq> {int i + 1}))"

section \<open>Retention of child output\<close>

lemma trackHistory_retention_simps [simp]:
  "trackHistory_retention None = 1" "trackHistory_retention (Some n) = n"
  by (simp_all add: trackHistory_retention_def)

lemma splice0_excess: "splice0 xs (int (length xs) - int R) = drop (length xs - R) xs"
proof -
  have "nat (min (max (int (length xs) - int R) 0) (int (length xs))) = length xs - R"
    by linarith
  then show ?thesis by (simp add: splice0_def)
qed

lemma trackHistory_data_drop:
  "trackHistory_data (int R) h d = drop (Suc (length h) - R) (h @ [d])"
proof -
  have "splice0 (h @ [d]) (int (length (h @ [d])) - int R) = drop (length (h @ [d]) - R) (h @ [d])"
    by (rule splice0_excess)
  then show ?thesis
    by (simp add: trackHistory_data_def Let_def)
qed

lemma foldl_trackHistory_data:
  "foldl (trackHistory_data (int R)) [] ds = drop (length ds - R) ds"
proof (induction ds rule: rev_induct)
  case Nil
  show ?case by simp
next
  case (snoc d ds)
  show ?case
  proof (cases "length ds \<le> R")
    case True
    with snoc show ?thesis by (simp add: trackHistory_data_drop)
  next
    case False
    then have "Suc (length ds) - R = Suc (length ds - R)" by simp
    with False snoc show ?thesis by (simp add: trackHistory_data_drop)
  qed
qed

section \<open>Tab navigation\<close>


lemma js_index_in_range:
  "0 \<le> i \<Longrightarrow> i < int (length xs) \<Longrightarrow> js_index xs i = Some (xs ! nat i)"
  by (simp add: js_index_def)

lemma rendered_in_range:
  "0 \<le> tab s \<Longrightarrow> tab s < int (length (histories s)) \<Longrightarrow>
   \<exists>es. render s = Inr es \<and> es \<noteq> [] \<and> rendered s = (es, Inr s)"
  by (simp add: rendered_def render_def js_index_def Let_def)

lemma js_rem_nonneg: "0 \<le> a \<Longrightarrow> 0 < b \<Longrightarrow> js_rem a b = a mod b"
  by (cases "a = 0") (simp_all add: js_rem_def)

lemma js_rem_left:
  assumes "0 \<le> t" "t < n"
  shows "js_rem (t + n - 1) n = (if t = 0 then n - 1 else t - 1)"
proof -
  have "js_rem (t + n - 1) n = (t + n - 1) mod n"
    using assms by (intro js_rem_nonneg) auto
  also have "\<dots> = (if t = 0 then n - 1 else t - 1)"
  proof (cases "t = 0")
    case True
    then show ?thesis using assms by (simp add: zmod_minus1)
  next
    case False
    have "(t + n - 1) mod n = ((t - 1) + n) mod n" by (simp add: algebra_simps)
    also have "\<dots> = (t - 1) mod n" by simp
    also have "\<dots> = t - 1" using False assms by simp
    finally show ?thesis using False by simp
  qed
  finally show ?thesis .
qed

lemma js_rem_right:
  assumes "0 \<le> t" "t < n"
  shows "js_rem (t + 1) n = (if t = n - 1 then 0 else t + 1)"
proof -
  have "js_rem (t + 1) n = (t + 1) mod n"
    using assms by (intro js_rem_nonneg) auto
  also have "\<dots> = (if t = n - 1 then 0 else t + 1)"
    using assms by auto
  finally show ?thesis .
qed

lemma keys_distinct: "keys_left \<noteq> keys_right" "keys_right \<noteq> keys_left"
  by (simp_all add: keys_left_def keys_right_def)

lemma arrowHandler_left:
  assumes "0 \<le> tab s" "tab s < int (length (histories s))"
  shows "\<exists>es. arrowHandler keys_left s =
           (es, Inr (s\<lparr>tab := (if tab s = 0 then int (length (histories s)) - 1 else tab s - 1),
                       cursor := maxCursor (histories s ! nat (tab s)) (lines s)\<rparr>))"
proof -
  let ?s' = "s\<lparr>tab := (if tab s = 0 then int (length (histories s)) - 1 else tab s - 1),
                cursor := maxCursor (histories s ! nat (tab s)) (lines s)\<rparr>"
  have "0 \<le> tab ?s'" "tab ?s' < int (length (histories ?s'))"
    using assms by auto
  from rendered_in_range [OF this] obtain es where "rendered ?s' = (es, Inr ?s')"
    by blast
  then have "arrowHandler keys_left s = (es, Inr ?s')"
    using assms
    by (simp add: arrowHandler_def Let_def keys_distinct js_index_in_range js_rem_left)
  then show ?thesis by blast
qed

lemma arrowHandler_right:
  assumes "0 \<le> tab s" "tab s < int (length (histories s))"
  shows "\<exists>es. arrowHandler keys_right s =
           (es, Inr (s\<lparr>tab := (if tab s = int (length (histories s)) - 1 then 0 else tab s + 1),
                       cursor := maxCursor (histories s ! nat (if tab s = int (length (histories s)) - 1 then 0 else tab s + 1)) (lines s)\<rparr>))"
proof -
  let ?t = "if tab s = int (length (histories s)) - 1 then 0 else tab s + 1"
  let ?s' = "s\<lparr>tab := ?t, cursor := maxCursor (histories s ! nat ?t) (lines s)\<rparr>"
  have t: "0 \<le> ?t" "?t < int (length (histories s))"
    using assms by auto
  then have "0 \<le> tab ?s'" "tab ?s' < int (length (histories ?s'))"
    by simp_all
  from rendered_in_range [OF this] obtain es where "rendered ?s' = (es, Inr ?s')"
    by blast
  then have "arrowHandler keys_right s = (es, Inr ?s')"
    using assms t
    by (simp add: arrowHandler_def Let_def keys_distinct js_index_in_range js_rem_right)
  then show ?thesis by blast
qed

text \<open>
  Claim C5. From a state whose \<open>tab\<close> is an index of \<open>histories\<close>, the left arrow followed
  by the right arrow, and the right arrow followed by the left arrow, both return and
  leave \<open>tab\<close> at its starting value.
\<close>

theorem navigate_round_trip:
  assumes "0 \<le> tab s" "tab s < int (length (histories s))"
  shows "(\<exists>e1 s1 e2 s2. arrowHandler keys_left s = (e1, Inr s1) \<and>
            arrowHandler keys_right s1 = (e2, Inr s2) \<and> tab s2 = tab s) \<and>
         (\<exists>e1 s1 e2 s2. arrowHandler keys_right s = (e1, Inr s1) \<and>
            arrowHandler keys_left s1 = (e2, Inr s2) \<and> tab s2 = tab s)"
proof
  from arrowHandler_left [OF assms] obtain e1 s1 where
    l: "arrowHandler keys_left s = (e1, Inr s1)"
      "tab s1 = (if tab s = 0 then int (length (histories s)) - 1 else tab s - 1)"
      "histories s1 = histories s"
    by force
  have v1: "0 \<le> tab s1" "tab s1 < int (length (histories s1))"
    using assms l by auto
  from arrowHandler_right [OF v1] obtain e2 s2 where
    r: "arrowHandler keys_right s1 = (e2, Inr s2)"
      "tab s2 = (if tab s1 = int (length (histories s1)) - 1 then 0 else tab s1 + 1)"
    by force
  have "tab s2 = tab s" using assms l r by auto
  with l r show "\<exists>e1 s1 e2 s2. arrowHandler keys_left s = (e1, Inr s1) \<and>
            arrowHandler keys_right s1 = (e2, Inr s2) \<and> tab s2 = tab s"
    by blast
next
  from arrowHandler_right [OF assms] obtain e1 s1 where
    r: "arrowHandler keys_right s = (e1, Inr s1)"
      "tab s1 = (if tab s = int (length (histories s)) - 1 then 0 else tab s + 1)"
      "histories s1 = histories s"
    by force
  have v1: "0 \<le> tab s1" "tab s1 < int (length (histories s1))"
    using assms r by auto
  from arrowHandler_left [OF v1] obtain e2 s2 where
    l: "arrowHandler keys_left s1 = (e2, Inr s2)"
      "tab s2 = (if tab s1 = 0 then int (length (histories s1)) - 1 else tab s1 - 1)"
    by force
  have "tab s2 = tab s" using assms l r by auto
  with l r show "\<exists>e1 s1 e2 s2. arrowHandler keys_right s = (e1, Inr s1) \<and>
            arrowHandler keys_left s1 = (e2, Inr s2) \<and> tab s2 = tab s"
    by blast
qed

theorem navigate_round_trip_witness:
  "(\<exists>e1 s1 e2 s2.
      arrowHandler keys_left
        \<lparr>tab = 0, lines = 20, processes = [], histories = [[], [], []], cursor = 0\<rparr> = (e1, Inr s1) \<and>
      arrowHandler keys_right s1 = (e2, Inr s2) \<and> tab s2 = 0) \<and>
   (\<exists>e1 s1 e2 s2.
      arrowHandler keys_right
        \<lparr>tab = 0, lines = 20, processes = [], histories = [[], [], []], cursor = 0\<rparr> = (e1, Inr s1) \<and>
      arrowHandler keys_left s1 = (e2, Inr s2) \<and> tab s2 = 0)"
  using navigate_round_trip
    [of "\<lparr>tab = 0, lines = 20, processes = [], histories = [[], [], []], cursor = 0\<rparr>"]
  by simp

section \<open>The scroll decoder\<close>

lemma utf8_decode_ascii:
  "b < 0x80 \<Longrightarrow> utf8_decode cp 0 lo hi (b # bs) = b # utf8_decode 0 0 0x80 0xBF bs"
  by simp

declare utf8_decode.simps [simp del]

lemma toString_utf8_ascii:
  "unat b < 0x80 \<Longrightarrow> toString_utf8 (b # rest) = unat b # toString_utf8 rest"
  by (simp add: toString_utf8_def utf16_units_def utf8_decode_ascii)

lemma toString_utf8_prefix:
  "toString_utf8 (0x1b # 0x5b # 0x4d # rest) = [0x1b, 0x5b, 0x4d] @ toString_utf8 rest"
  by (simp add: toString_utf8_ascii)

lemma toString_utf8_Nil: "toString_utf8 [] = []"
  by (simp add: toString_utf8_def utf8_decode.simps)


lemma charCodeAt_prefix:
  "charCodeAt (toString_utf8 (0x1b # 0x5b # 0x4d # rest)) 3 = charCodeAt (toString_utf8 rest) 0"
  by (simp add: toString_utf8_prefix charCodeAt_def)

text \<open>
  Claim C1, as the code has it. For a chunk that begins with ESC \<open>[\<close> \<open>M\<close>, let \<open>c\<close> be
  \<open>charCodeAt(3)\<close> of the decoded chunk (\<open>NaN\<close>, which \<open>&\<close> reads as 0, when the chunk has
  only those three bytes; the fourth byte itself when that byte is ASCII). If the bits
  \<open>0x60\<close> of \<open>c\<close> are not both set the result is \<open>null\<close>. Otherwise the result is \<open>-1\<close> when
  bit \<open>0x01\<close> is set and \<open>1\<close> when it is clear: the opposite sign to the one the
  specification gives.
\<close>

theorem isScrollEvent_classifies:
  "isScrollEvent (0x1b # 0x5b # 0x4d # rest) =
     (let c = charCodeAt (toString_utf8 (0x1b # 0x5b # 0x4d # rest)) 3 in
      if bitand_js c 96 \<noteq> 96 then None
      else if bitand_js c 1 \<noteq> 0 then Some (- 1) else Some 1) \<and>
   (rest = [] \<longrightarrow> charCodeAt (toString_utf8 (0x1b # 0x5b # 0x4d # rest)) 3 = None) \<and>
   (\<forall>b bs. rest = b # bs \<and> unat b < 0x80 \<longrightarrow>
      charCodeAt (toString_utf8 (0x1b # 0x5b # 0x4d # rest)) 3 = Some (unat b))"
proof (intro conjI allI impI)
  show "isScrollEvent (0x1b # 0x5b # 0x4d # rest) =
     (let c = charCodeAt (toString_utf8 (0x1b # 0x5b # 0x4d # rest)) 3 in
      if bitand_js c 96 \<noteq> 96 then None
      else if bitand_js c 1 \<noteq> 0 then Some (- 1) else Some 1)"
    by (simp add: isScrollEvent_def matchMouseEvent_def toString_utf8_prefix Let_def)
next
  assume "rest = []"
  then show "charCodeAt (toString_utf8 (0x1b # 0x5b # 0x4d # rest)) 3 = None"
    unfolding charCodeAt_prefix by (simp add: toString_utf8_Nil charCodeAt_def)
next
  fix b bs
  assume "rest = b # bs \<and> unat b < 0x80"
  then show "charCodeAt (toString_utf8 (0x1b # 0x5b # 0x4d # rest)) 3 = Some (unat b)"
    unfolding charCodeAt_prefix by (simp add: toString_utf8_ascii charCodeAt_def)
qed

theorem isScrollEvent_classifies_witness:
  "isScrollEvent [0x1b, 0x5b, 0x4d, 0x61] = Some (- 1) \<and>
   isScrollEvent [0x1b, 0x5b, 0x4d, 0x60] = Some 1 \<and>
   isScrollEvent [0x1b, 0x5b, 0x4d, 0x20] = None \<and>
   isScrollEvent [0x1b, 0x5b, 0x4d] = None"
  using isScrollEvent_classifies [of "[0x61]"] isScrollEvent_classifies [of "[0x60]"]
    isScrollEvent_classifies [of "[0x20]"] isScrollEvent_classifies [of "[]"]
  by (simp add: bitand_js_def)

text \<open>
  The chunk ESC \<open>[\<close> \<open>M\<close> \<open>a\<close>: the fourth code unit \<open>0x61\<close> has the bits \<open>0x60\<close> and the bit
  \<open>0x01\<close> set, and the direction is \<open>-1\<close>, not \<open>1\<close>.
\<close>

theorem isScrollEvent_bit0_counterexample:
  "charCodeAt (toString_utf8 [0x1b, 0x5b, 0x4d, 0x61]) 3 = Some 0x61 \<and>
   (0x61 :: nat) AND 0x60 = 0x60 \<and> (0x61 :: nat) AND 0x01 = 0x01 \<and>
   isScrollEvent [0x1b, 0x5b, 0x4d, 0x61] = Some (- 1) \<and>
   isScrollEvent [0x1b, 0x5b, 0x4d, 0x61] \<noteq> Some 1"
  by (simp add: isScrollEvent_def matchMouseEvent_def toString_utf8_prefix toString_utf8_ascii
      toString_utf8_Nil charCodeAt_def bitand_js_def)

section \<open>Scrolling\<close>

lemma rendered_frame: "rendered s = (es, Inr s') \<Longrightarrow> s' = s \<and> render s = Inr es"
  by (auto simp add: rendered_def split: sum.splits)

lemma scrollHandler_up:
  assumes "0 \<le> tab s" "tab s < int (length (histories s))" "isScrollEvent d = Some (- 1)"
  shows "scrollHandler d s =
           (if max 0 (cursor s - 1) \<noteq> cursor s then rendered (s\<lparr>cursor := max 0 (cursor s - 1)\<rparr>)
            else ([], Inr s))"
  using assms by (simp add: scrollHandler_def Let_def)

lemma scrollHandler_down:
  assumes "0 \<le> tab s" "tab s < int (length (histories s))" "isScrollEvent d = Some 1"
  shows "scrollHandler d s =
           (if min (maxCursor (histories s ! nat (tab s)) (lines s)) (cursor s + 1) \<noteq> cursor s
            then rendered (s\<lparr>cursor := min (maxCursor (histories s ! nat (tab s)) (lines s)) (cursor s + 1)\<rparr>)
            else ([], Inr s))"
  using assms by (simp add: scrollHandler_def Let_def js_index_in_range)

lemma rendered_cursor_in_range:
  assumes "0 \<le> tab s" "tab s < int (length (histories s))"
  shows "\<exists>es. render (s\<lparr>cursor := c\<rparr>) = Inr es \<and> es \<noteq> [] \<and>
           rendered (s\<lparr>cursor := c\<rparr>) = (es, Inr (s\<lparr>cursor := c\<rparr>))"
  using assms rendered_in_range [of "s\<lparr>cursor := c\<rparr>"] by simp

text \<open>
  \<open>scrollHandler\<close> on its own: in a state whose \<open>tab\<close> is an index of \<open>histories\<close>, a chunk
  decoded as direction \<open>-1\<close> leaves the cursor at \<open>max(0, cursor - 1)\<close>, one decoded as
  direction \<open>1\<close> at \<open>min(max(0, length of the active history - lines), cursor + 1)\<close>, and
  this handler writes a frame, the frame of the new state, exactly when the new cursor
  differs from the old one.
\<close>

lemma scrollHandler_moves_cursor:
  assumes "0 \<le> tab s" "tab s < int (length (histories s))"
  shows "(isScrollEvent d = Some (- 1) \<longrightarrow>
            (\<exists>es. scrollHandler d s = (es, Inr (s\<lparr>cursor := max 0 (cursor s - 1)\<rparr>)) \<and>
                  (es \<noteq> [] \<longleftrightarrow> max 0 (cursor s - 1) \<noteq> cursor s) \<and>
                  (es \<noteq> [] \<longrightarrow> render (s\<lparr>cursor := max 0 (cursor s - 1)\<rparr>) = Inr es))) \<and>
         (isScrollEvent d = Some 1 \<longrightarrow>
            (\<exists>es. scrollHandler d s =
                    (es, Inr (s\<lparr>cursor := min (maxCursor (histories s ! nat (tab s)) (lines s))
                                            (cursor s + 1)\<rparr>)) \<and>
                  (es \<noteq> [] \<longleftrightarrow>
                     min (maxCursor (histories s ! nat (tab s)) (lines s)) (cursor s + 1) \<noteq> cursor s) \<and>
                  (es \<noteq> [] \<longrightarrow>
                     render (s\<lparr>cursor := min (maxCursor (histories s ! nat (tab s)) (lines s))
                                          (cursor s + 1)\<rparr>) = Inr es)))"
proof (intro conjI impI)
  assume up: "isScrollEvent d = Some (- 1)"
  let ?c = "max 0 (cursor s - 1)"
  from rendered_cursor_in_range [OF assms, of ?c] obtain es where
    es: "render (s\<lparr>cursor := ?c\<rparr>) = Inr es" "es \<noteq> []"
      "rendered (s\<lparr>cursor := ?c\<rparr>) = (es, Inr (s\<lparr>cursor := ?c\<rparr>))"
    by blast
  show "\<exists>es. scrollHandler d s = (es, Inr (s\<lparr>cursor := ?c\<rparr>)) \<and>
             (es \<noteq> [] \<longleftrightarrow> ?c \<noteq> cursor s) \<and>
             (es \<noteq> [] \<longrightarrow> render (s\<lparr>cursor := ?c\<rparr>) = Inr es)"
  proof (cases "?c = cursor s")
    case True
    then have "s\<lparr>cursor := ?c\<rparr> = s" by simp
    with True scrollHandler_up [OF assms up] show ?thesis by simp
  next
    case False
    with es scrollHandler_up [OF assms up] show ?thesis by simp
  qed
next
  assume down: "isScrollEvent d = Some 1"
  let ?c = "min (maxCursor (histories s ! nat (tab s)) (lines s)) (cursor s + 1)"
  from rendered_cursor_in_range [OF assms, of ?c] obtain es where
    es: "render (s\<lparr>cursor := ?c\<rparr>) = Inr es" "es \<noteq> []"
      "rendered (s\<lparr>cursor := ?c\<rparr>) = (es, Inr (s\<lparr>cursor := ?c\<rparr>))"
    by blast
  show "\<exists>es. scrollHandler d s = (es, Inr (s\<lparr>cursor := ?c\<rparr>)) \<and>
             (es \<noteq> [] \<longleftrightarrow> ?c \<noteq> cursor s) \<and>
             (es \<noteq> [] \<longrightarrow> render (s\<lparr>cursor := ?c\<rparr>) = Inr es)"
  proof (cases "?c = cursor s")
    case True
    then have "s\<lparr>cursor := ?c\<rparr> = s" by simp
    with True scrollHandler_down [OF assms down] show ?thesis by simp
  next
    case False
    with es scrollHandler_down [OF assms down] show ?thesis by simp
  qed
qed

lemma isScrollEvent_chunks:
  "isScrollEvent [0x1b, 0x5b, 0x4d, 0x61] = Some (- 1)"
  "isScrollEvent [0x1b, 0x5b, 0x4d, 0x60] = Some 1"
  by (simp_all add: isScrollEvent_def matchMouseEvent_def toString_utf8_prefix
      toString_utf8_ascii toString_utf8_Nil charCodeAt_def bitand_js_def)

text \<open>
  Claim C10. Whatever the chunk is, a call of \<open>scrollHandler\<close> that returns leaves \<open>tab\<close>,
  \<open>lines\<close>, \<open>processes\<close> and every history buffer as they were: the state after the call is
  the state before it with at most \<open>cursor\<close> replaced. It does return in every state whose
  \<open>tab\<close> is an index of \<open>histories\<close>.
\<close>

theorem scrollHandler_frame:
  "(0 \<le> tab s \<and> tab s < int (length (histories s)) \<longrightarrow>
      (\<exists>es s'. scrollHandler d s = (es, Inr s'))) \<and>
   (\<forall>es s'. scrollHandler d s = (es, Inr s') \<longrightarrow>
      tab s' = tab s \<and> lines s' = lines s \<and> processes s' = processes s \<and>
      histories s' = histories s \<and> s' = s\<lparr>cursor := cursor s'\<rparr>)"
proof (intro conjI impI allI)
  assume v: "0 \<le> tab s \<and> tab s < int (length (histories s))"
  then show "\<exists>es s'. scrollHandler d s = (es, Inr s')"
    by (simp add: scrollHandler_def Let_def rendered_def render_def js_index_def
        split: option.splits)
next
  fix es s'
  assume "scrollHandler d s = (es, Inr s')"
  then have "s\<lparr>cursor := cursor s'\<rparr> = s'"
    by (auto simp add: scrollHandler_def Let_def dest!: rendered_frame
        split: option.splits sum.splits if_splits)
  then obtain c where c: "s' = s\<lparr>cursor := c\<rparr>"
    by metis
  show "tab s' = tab s" "lines s' = lines s" "processes s' = processes s"
    "histories s' = histories s" "s' = s\<lparr>cursor := cursor s'\<rparr>"
    by (simp_all add: c)
qed

theorem scrollHandler_frame_witness:
  "(\<exists>es s'. scrollHandler [0x1b, 0x5b, 0x4d, 0x61]
       \<lparr>tab = 1, lines = 2, processes = [ChildProcess (''npx'', [])],
        histories = [[''a''], [''b'', ''c'', ''d'']], cursor = 1\<rparr> = (es, Inr s') \<and>
      tab s' = 1 \<and> lines s' = 2 \<and> processes s' = [ChildProcess (''npx'', [])] \<and>
      histories s' = [[''a''], [''b'', ''c'', ''d'']])"
  using scrollHandler_frame [of
      "\<lparr>tab = 1, lines = 2, processes = [ChildProcess (''npx'', [])],
        histories = [[''a''], [''b'', ''c'', ''d'']], cursor = 1\<rparr>" "[0x1b, 0x5b, 0x4d, 0x61]"]
  by auto

section \<open>The left arrow\<close>

text \<open>
  Claim C2 at a concrete state: tab 1 is active and holds 21 lines, the main tab holds
  one line, 20 lines fit the view. The left arrow moves to tab 0 and sets the cursor to 1,
  the tail of the tab that was left (\<open>histories[tab]\<close> is read with the old \<open>tab\<close>); the
  tail of the tab that is now active is 0.
\<close>

theorem arrowHandler_left_keeps_old_tail:
  "snd (arrowHandler keys_left
          \<lparr>tab = 1, lines = 20, processes = [ChildProcess (''npx'', [])],
           histories = [[''Initialized!''], replicate 21 ''x''], cursor = 0\<rparr>) =
     Inr \<lparr>tab = 0, lines = 20, processes = [ChildProcess (''npx'', [])],
          histories = [[''Initialized!''], replicate 21 ''x''], cursor = 1\<rparr> \<and>
   maxCursor ([[''Initialized!''], replicate 21 ''x''] ! 0) 20 = 0 \<and>
   maxCursor ([[''Initialized!''], replicate 21 ''x''] ! 1) 20 = 1"
  using arrowHandler_left [of "\<lparr>tab = 1, lines = 20, processes = [ChildProcess (''npx'', [])],
           histories = [[''Initialized!''], replicate 21 ''x''], cursor = 0\<rparr>"]
  by (auto simp add: maxCursor_def)

section \<open>Runs of the session\<close>

lemma bind_io_simps:
  "bind_io (es, Inl h) f = (es, Inl h)"
  "bind_io (es, Inr a) f = (es @ fst (f a), snd (f a))"
  by (simp_all add: bind_io_def split: prod.splits)

lemma bind_io_return: "bind_io m (\<lambda>a. ([], Inr a)) = m"
  by (cases m; cases "snd m") (auto simp add: bind_io_def)

lemma bind_io_assoc: "bind_io (bind_io m f) g = bind_io m (\<lambda>a. bind_io (f a) g)"
  by (cases m; cases "snd m") (auto simp add: bind_io_def split: prod.splits sum.splits)

lemma run_append: "run (xs @ ys) w = bind_io (run xs w) (run ys)"
proof (induction xs arbitrary: w)
  case Nil
  show ?case by (simp add: bind_io_simps)
next
  case (Cons e xs)
  have "run (xs @ ys) = (\<lambda>a. bind_io (run xs a) (run ys))"
    by (rule ext) (rule Cons.IH)
  then show ?case by (simp add: bind_io_assoc)
qed


lemma terminateHandler_other:
  "data \<noteq> keys_SIGINT \<Longrightarrow> terminateHandler data w = ([], Inr w)"
  by (simp add: terminateHandler_def)

lemma restartHandler_id: "restartHandler data = id"
  by (rule ext) (simp add: restartHandler_def)

lemma restartHandler_funpow: "(restartHandler data ^^ n) s = s"
  by (simp add: restartHandler_id)

lemma isScrollEvent_keys:
  "isScrollEvent keys_left = None" "isScrollEvent keys_right = None"
  "isScrollEvent keys_SIGINT = None"
  by (simp_all add: isScrollEvent_def matchMouseEvent_def keys_left_def keys_right_def
      keys_SIGINT_def toString_utf8_ascii toString_utf8_Nil)

lemma scrollHandler_no_scroll: "isScrollEvent data = None \<Longrightarrow> scrollHandler data s = ([], Inr s)"
  by (simp add: scrollHandler_def)

lemma keys_not_SIGINT: "keys_left \<noteq> keys_SIGINT" "keys_right \<noteq> keys_SIGINT"
  by (simp_all add: keys_left_def keys_right_def keys_SIGINT_def)

lemma stdinData_left:
  assumes "0 \<le> tab (state w)" "tab (state w) < int (length (histories (state w)))"
  shows "\<exists>es. stdinData keys_left w =
           (es, Inr (w\<lparr>state := (state w)
              \<lparr>tab := (if tab (state w) = 0 then int (length (histories (state w))) - 1
                        else tab (state w) - 1),
               cursor := maxCursor (histories (state w) ! nat (tab (state w))) (lines (state w))\<rparr>\<rparr>))"
proof -
  from arrowHandler_left [OF assms] obtain es where
    "arrowHandler keys_left (state w) =
       (es, Inr ((state w)
              \<lparr>tab := (if tab (state w) = 0 then int (length (histories (state w))) - 1
                        else tab (state w) - 1),
               cursor := maxCursor (histories (state w) ! nat (tab (state w))) (lines (state w))\<rparr>))"
    by blast
  then show ?thesis
    by (simp add: stdinData_def terminateHandler_other keys_not_SIGINT bind_io_simps
        scrollHandler_no_scroll isScrollEvent_keys restartHandler_funpow)
qed

lemma stdinData_right:
  assumes "0 \<le> tab (state w)" "tab (state w) < int (length (histories (state w)))"
  shows "\<exists>es. stdinData keys_right w =
           (es, Inr (w\<lparr>state := (state w)
              \<lparr>tab := (if tab (state w) = int (length (histories (state w))) - 1 then 0
                        else tab (state w) + 1),
               cursor := maxCursor (histories (state w) !
                   nat (if tab (state w) = int (length (histories (state w))) - 1 then 0
                        else tab (state w) + 1)) (lines (state w))\<rparr>\<rparr>))"
proof -
  from arrowHandler_right [OF assms] obtain es where
    "arrowHandler keys_right (state w) =
       (es, Inr ((state w)
              \<lparr>tab := (if tab (state w) = int (length (histories (state w))) - 1 then 0
                        else tab (state w) + 1),
               cursor := maxCursor (histories (state w) !
                   nat (if tab (state w) = int (length (histories (state w))) - 1 then 0
                        else tab (state w) + 1)) (lines (state w))\<rparr>))"
    by blast
  then show ?thesis
    by (simp add: stdinData_def terminateHandler_other keys_not_SIGINT bind_io_simps
        scrollHandler_no_scroll isScrollEvent_keys restartHandler_funpow)
qed

lemma childData_inactive:
  assumes "tab (state w) \<noteq> int i + 1" "Suc i < length (histories (state w))"
  shows "childData i d w =
           ([], Inr (w\<lparr>state := (state w)\<lparr>histories := (histories (state w))
                [Suc i := trackHistory_data 1000 (histories (state w) ! Suc i) d]\<rparr>\<rparr>))"
  using assms by (simp add: childData_def updateActiveTab_data_def bind_io_simps Let_def)

lemma run_childData_inactive:
  assumes "tab (state w) \<noteq> int i + 1" "Suc i < length (histories (state w))"
    "i < length (processes (state w))"
  shows "run (map (ChildData i) ds) w =
           ([], Inr (w\<lparr>state := (state w)\<lparr>histories := (histories (state w))
                [Suc i := foldl (trackHistory_data 1000) (histories (state w) ! Suc i) ds]\<rparr>\<rparr>))"
  using assms
proof (induction ds arbitrary: w)
  case Nil
  then show ?case by simp
next
  case (Cons d ds)
  let ?w1 = "w\<lparr>state := (state w)\<lparr>histories := (histories (state w))
                [Suc i := trackHistory_data 1000 (histories (state w) ! Suc i) d]\<rparr>\<rparr>"
  have "run (map (ChildData i) ds) ?w1 =
          ([], Inr (?w1\<lparr>state := (state ?w1)\<lparr>histories := (histories (state ?w1))
                [Suc i := foldl (trackHistory_data 1000) (histories (state ?w1) ! Suc i) ds]\<rparr>\<rparr>))"
    using Cons.prems by (intro Cons.IH) simp_all
  then show ?case
    using Cons.prems by (simp add: childData_inactive bind_io_simps)
qed


lemma viewProcessesInTabs_start:
  "\<exists>es. viewProcessesInTabs commands =
     (es, Inr \<lparr>state = \<lparr>tab = 0, lines = 20, processes = map ChildProcess commands,
                         histories = [''Initialized!'' @ [CHR 0x0A]] # map (\<lambda>c. []) commands,
                         cursor = 0\<rparr>,
               exitListeners = map (\<lambda>c. []) commands, restartListeners = 0, exitCode = None\<rparr>)"
proof -
  let ?s = "\<lparr>tab = 0, lines = 20, processes = map ChildProcess commands,
             histories = [''Initialized!'' @ [CHR 0x0A]] # map (\<lambda>c. []) commands, cursor = 0\<rparr>"
  have "0 \<le> tab ?s" "tab ?s < int (length (histories ?s))" by simp_all
  from rendered_in_range [OF this] obtain es where "rendered ?s = (es, Inr ?s)" by blast
  then show ?thesis
    by (simp add: viewProcessesInTabs_def initialState_def main_print_def push_at_def
        bind_io_simps comp_def)
qed

text \<open>
  Claim C3 on a run of the session. One command is started, its process writes 21
  chunks, then the right arrow and the left arrow are pressed. The session ends on the
  main tab, whose single line gives the cursor the range from 0 to 0, with the cursor
  at 1.
\<close>

theorem cursor_bound_broken_by_left:
  "final_state (bind_io (viewProcessesInTabs [(''npx'', [])])
      (run (replicate 21 (ChildData 0 ''x'') @ [StdinData keys_right, StdinData keys_left]))) =
     Some \<lparr>tab = 0, lines = 20, processes = [ChildProcess (''npx'', [])],
           histories = [[''Initialized!'' @ [CHR 0x0A]], replicate 21 ''x''], cursor = 1\<rparr> \<and>
   \<not> cursor_in_range
       \<lparr>tab = 0, lines = 20, processes = [ChildProcess (''npx'', [])],
        histories = [[''Initialized!'' @ [CHR 0x0A]], replicate 21 ''x''], cursor = 1\<rparr>"
proof
  let ?w0 = "\<lparr>state = \<lparr>tab = 0, lines = 20, processes = [ChildProcess (''npx'', [])],
                         histories = [[''Initialized!'' @ [CHR 0x0A]], []], cursor = 0\<rparr>,
             exitListeners = [[]], restartListeners = 0, exitCode = None\<rparr>"
  let ?w1 = "?w0\<lparr>state := (state ?w0)\<lparr>histories :=
                [[''Initialized!'' @ [CHR 0x0A]], replicate 21 ''x'']\<rparr>\<rparr>"
  let ?w2 = "?w1\<lparr>state := (state ?w1)\<lparr>tab := 1, cursor := 1\<rparr>\<rparr>"
  let ?w3 = "?w2\<lparr>state := (state ?w2)\<lparr>tab := 0, cursor := 1\<rparr>\<rparr>"
  from viewProcessesInTabs_start [of "[(''npx'', [])]"] obtain es0 where
    start: "viewProcessesInTabs [(''npx'', [])] = (es0, Inr ?w0)"
    by auto
  have fold: "foldl (trackHistory_data 1000) [] (replicate 21 ''x'') = replicate 21 ''x''"
    using foldl_trackHistory_data [of 1000 "replicate 21 ''x''"] by simp
  have out: "run (replicate 21 (ChildData 0 ''x'')) ?w0 = ([], Inr ?w1)"
    using run_childData_inactive [of ?w0 0 "replicate 21 ''x''"] by (simp add: fold)
  from stdinData_right [of ?w1] obtain es2 where
    right: "stdinData keys_right ?w1 = (es2, Inr ?w2)"
    by (auto simp add: maxCursor_def)
  from stdinData_left [of ?w2] obtain es3 where
    left: "stdinData keys_left ?w2 = (es3, Inr ?w3)"
    by (auto simp add: maxCursor_def)
  show "final_state (bind_io (viewProcessesInTabs [(''npx'', [])])
      (run (replicate 21 (ChildData 0 ''x'') @ [StdinData keys_right, StdinData keys_left]))) =
     Some \<lparr>tab = 0, lines = 20, processes = [ChildProcess (''npx'', [])],
           histories = [[''Initialized!'' @ [CHR 0x0A]], replicate 21 ''x''], cursor = 1\<rparr>"
    by (simp add: start [simplified] run_append out [simplified] right [simplified]
        left [simplified] bind_io_simps final_state_def)
next
  show "\<not> cursor_in_range
       \<lparr>tab = 0, lines = 20, processes = [ChildProcess (''npx'', [])],
        histories = [[''Initialized!'' @ [CHR 0x0A]], replicate 21 ''x''], cursor = 1\<rparr>"
    by (simp add: cursor_in_range_def js_index_def maxCursor_def)
qed

section \<open>Interrupt on the main tab\<close>

lemma count_list_append_sum: "count_list (xs @ ys) a = count_list xs a + count_list ys a"
  by (induction xs) simp_all

lemma count_list_kills:
  "count_list (map (\<lambda>i. Kill i sg) [0..<n]) (Kill i sg) = (if i < n then 1 else 0)"
  by (induction n) (auto simp add: count_list_append_sum)

lemma count_list_disableMouseEvents: "count_list disableMouseEvents (Kill i sg) = 0"
  by (simp add: disableMouseEvents_def)

lemma terminateHandler_main:
  "tab (state w) = 0 \<Longrightarrow>
   terminateHandler keys_SIGINT w =
     (disableMouseEvents @ map (\<lambda>i. Kill i SIGTERM) [0..<length (processes (state w))],
      Inl (ProcessExit (case exitCode w of None \<Rightarrow> 0 | Some c \<Rightarrow> c)))"
  by (simp add: terminateHandler_def Let_def)


lemma stdinData_main:
  assumes "tab (state w) = 0"
  shows "stdinData keys_SIGINT w =
           (disableMouseEvents @ map (\<lambda>i. Kill i SIGTERM) [0..<length (processes (state w))],
            Inl (ProcessExit (case exitCode w of None \<Rightarrow> 0 | Some c \<Rightarrow> c)))"
  unfolding stdinData_def terminateHandler_main [OF assms] by (simp add: bind_io_def)


text \<open>
  Claim C8. With the main tab active, the chunk \<open>0x03\<close> makes the session restore the
  mouse mode (the \<open>beforeExit\<close> listener), call \<open>kill()\<close>, which sends \<open>SIGTERM\<close>, on every
  child process in order, and exit with the current exit code. Each child gets that one
  signal and no other, and no later stdin listener runs: the whole dispatch of the chunk
  is what \<open>terminateHandler\<close> does.
\<close>

theorem interrupt_on_main_tab:
  assumes "tab (state w) = 0"
  shows "stdinData keys_SIGINT w =
           (disableMouseEvents @ map (\<lambda>i. Kill i SIGTERM) [0..<length (processes (state w))],
            Inl (ProcessExit (case exitCode w of None \<Rightarrow> 0 | Some c \<Rightarrow> c))) \<and>
         terminateHandler keys_SIGINT w = stdinData keys_SIGINT w \<and>
         (\<forall>i < length (processes (state w)).
            count_list (fst (stdinData keys_SIGINT w)) (Kill i SIGTERM) = 1) \<and>
         (\<forall>i sg. Kill i sg \<in> set (fst (stdinData keys_SIGINT w)) \<longrightarrow>
            i < length (processes (state w)) \<and> sg = SIGTERM)"
proof -
  note r = stdinData_main [OF assms]
  have once: "\<forall>i < length (processes (state w)).
            count_list (fst (stdinData keys_SIGINT w)) (Kill i SIGTERM) = 1"
    unfolding r by (simp add: count_list_append_sum count_list_kills count_list_disableMouseEvents)
  have only: "\<forall>i sg. Kill i sg \<in> set (fst (stdinData keys_SIGINT w)) \<longrightarrow>
            i < length (processes (state w)) \<and> sg = SIGTERM"
    unfolding r by (auto simp add: disableMouseEvents_def)
  have same: "terminateHandler keys_SIGINT w = stdinData keys_SIGINT w"
    unfolding r by (rule terminateHandler_main [OF assms])
  from r once only same show ?thesis by blast
qed


theorem interrupt_on_main_tab_witness:
  "stdinData keys_SIGINT
     \<lparr>state = \<lparr>tab = 0, lines = 20,
                processes = [ChildProcess (''npx'', [''a'']), ChildProcess (''npx'', [''b''])],
                histories = [[], [], []], cursor = 0\<rparr>,
      exitListeners = [[], []], restartListeners = 0, exitCode = None\<rparr> =
   (disableMouseEvents @ [Kill 0 SIGTERM, Kill 1 SIGTERM], Inl (ProcessExit 0))"
proof -
  have u: "[0..<Suc (Suc 0)] = [0, Suc 0]" by (simp add: upt_conv_Cons)
  have "tab (state \<lparr>state = \<lparr>tab = 0, lines = 20,
                processes = [ChildProcess (''npx'', [''a'']), ChildProcess (''npx'', [''b''])],
                histories = [[], [], []], cursor = 0\<rparr>,
      exitListeners = [[], []], restartListeners = 0, exitCode = None\<rparr>) = 0"
    by simp
  from interrupt_on_main_tab [OF this] show ?thesis
    by (simp add: u)
qed

section \<open>Following the output of the active tab\<close>

lemma updateActiveTab_data_active:
  assumes "tab s = int i + 1" "Suc i < length (histories s)"
  shows "updateActiveTab_data i s =
           (if cursor s > maxCursor (histories s ! Suc i) (lines s) - 2
            then rendered (s\<lparr>cursor := maxCursor (histories s ! Suc i) (lines s)\<rparr>)
            else ([], Inr s))"
proof -
  have "js_index (histories s) (int i + 1) = Some (histories s ! Suc i)"
    using assms by (simp add: js_index_def nat_add_distrib)
  then show ?thesis
    using assms by (simp add: updateActiveTab_data_def)
qed

text \<open>
  Claim C7, as the code has it. A chunk arrives on the stdout of process \<open>i\<close> while its tab
  \<open>i + 1\<close> is active. The listener of \<open>trackHistory\<close> appends it first; the tail is then
  computed from the buffer that already holds the chunk. If the cursor is greater than
  that new tail minus 2, the cursor becomes the new tail and the frame of the new state
  is written; otherwise nothing is written and the cursor stays.
\<close>

theorem auto_follow:
  assumes "tab (state w) = int i + 1" "Suc i < length (histories (state w))"
  shows "let s = state w;
             h = trackHistory_data 1000 (histories s ! Suc i) d;
             s1 = s\<lparr>histories := (histories s)[Suc i := h]\<rparr>;
             tail = maxCursor h (lines s)
         in \<exists>es. render (s1\<lparr>cursor := tail\<rparr>) = Inr es \<and> es \<noteq> [] \<and>
               childData i d w =
                 (if cursor s > tail - 2 then (es, Inr (w\<lparr>state := s1\<lparr>cursor := tail\<rparr>\<rparr>))
                  else ([], Inr (w\<lparr>state := s1\<rparr>)))"
proof -
  let ?s = "state w"
  let ?h = "trackHistory_data 1000 (histories ?s ! Suc i) d"
  let ?s1 = "?s\<lparr>histories := (histories ?s)[Suc i := ?h]\<rparr>"
  let ?tail = "maxCursor ?h (lines ?s)"
  have v: "0 \<le> tab ?s1" "tab ?s1 < int (length (histories ?s1))"
    using assms by simp_all
  from rendered_cursor_in_range [OF v, of ?tail] obtain es where
    es: "render (?s1\<lparr>cursor := ?tail\<rparr>) = Inr es" "es \<noteq> []"
      "rendered (?s1\<lparr>cursor := ?tail\<rparr>) = (es, Inr (?s1\<lparr>cursor := ?tail\<rparr>))"
    by blast
  have a: "tab ?s1 = int i + 1" "Suc i < length (histories ?s1)"
    using assms by simp_all
  have h: "histories ?s1 ! Suc i = ?h" "lines ?s1 = lines ?s" "cursor ?s1 = cursor ?s"
    using assms by simp_all
  have "childData i d w =
          (if cursor ?s > ?tail - 2 then (es, Inr (w\<lparr>state := ?s1\<lparr>cursor := ?tail\<rparr>\<rparr>))
           else ([], Inr (w\<lparr>state := ?s1\<rparr>)))"
    unfolding childData_def Let_def using assms(2)
    by (simp add: updateActiveTab_data_active [OF a] h es bind_io_simps del: state.simps)
  with es show ?thesis
    unfolding Let_def by blast
qed


theorem auto_follow_witness:
  "\<exists>es. es \<noteq> [] \<and>
     childData 0 ''y''
       \<lparr>state = \<lparr>tab = 1, lines = 20, processes = [ChildProcess (''npx'', [])],
                histories = [[], replicate 30 ''x''], cursor = 10\<rparr>,
      exitListeners = [[]], restartListeners = 0, exitCode = None\<rparr> =
     (es, Inr \<lparr>state = \<lparr>tab = 1, lines = 20, processes = [ChildProcess (''npx'', [])],
                histories = [[], replicate 30 ''x'' @ [''y'']], cursor = 11\<rparr>,
      exitListeners = [[]], restartListeners = 0, exitCode = None\<rparr>)"
  using auto_follow [of "\<lparr>state = \<lparr>tab = 1, lines = 20, processes = [ChildProcess (''npx'', [])],
                histories = [[], replicate 30 ''x''], cursor = 10\<rparr>,
      exitListeners = [[]], restartListeners = 0, exitCode = None\<rparr>" 0 "''y''"]
  by (auto simp add: Let_def trackHistory_data_def maxCursor_def)

text \<open>
  Tab 1 is active with 30 lines, 20 lines fit the view, so the tail is 10, and the
  cursor is at 9, one line from the tail. A chunk arrives: the new tail is 11, the cursor
  is two lines from it, nothing is written and the cursor stays at 9.
\<close>

theorem auto_follow_one_behind_counterexample:
  "maxCursor (replicate 30 ''x'') 20 = 10 \<and>
   maxCursor (replicate 30 ''x'' @ [''y'']) 20 = 11 \<and>
   childData 0 ''y''
     \<lparr>state = \<lparr>tab = 1, lines = 20, processes = [ChildProcess (''npx'', [])],
                histories = [[], replicate 30 ''x''], cursor = 9\<rparr>,
      exitListeners = [[]], restartListeners = 0, exitCode = None\<rparr> =
   ([], Inr \<lparr>state = \<lparr>tab = 1, lines = 20, processes = [ChildProcess (''npx'', [])],
                histories = [[], replicate 30 ''x'' @ [''y'']], cursor = 9\<rparr>,
      exitListeners = [[]], restartListeners = 0, exitCode = None\<rparr>)"
  by (simp add: childData_def updateActiveTab_data_def js_index_def Let_def
      trackHistory_data_def maxCursor_def bind_io_simps)

section \<open>Interrupt on a child tab\<close>

lemma keys_SIGINT_not_arrow: "keys_SIGINT \<noteq> keys_left" "keys_SIGINT \<noteq> keys_right"
  by (simp_all add: keys_left_def keys_right_def keys_SIGINT_def)

lemma arrowHandler_other:
  "data \<noteq> keys_left \<Longrightarrow> data \<noteq> keys_right \<Longrightarrow> arrowHandler data s = rendered s"
  by (simp add: arrowHandler_def Let_def)

lemma terminateHandler_child:
  assumes "0 < tab (state w)" "tab (state w) < int (length (histories (state w)))"
    "nat (tab (state w)) \<le> length (processes (state w))"
  shows "\<exists>es. render ((state w)\<lparr>histories := (histories (state w))
                  [nat (tab (state w)) := histories (state w) ! nat (tab (state w)) @ [[CHR 0x0A], sigint_note]]\<rparr>) = Inr es \<and>
          terminateHandler keys_SIGINT w =
           (es @ [Kill (nat (tab (state w) - 1)) SIGINT],
            Inr (w\<lparr>exitListeners := push_at (exitListeners w) (nat (tab (state w) - 1)) [tab (state w)],
                   state := (state w)\<lparr>histories := (histories (state w))
                  [nat (tab (state w)) := histories (state w) ! nat (tab (state w)) @ [[CHR 0x0A], sigint_note]]\<rparr>\<rparr>))"
proof -
  let ?t = "tab (state w)"
  let ?s1 = "(state w)\<lparr>histories := (histories (state w))
                  [nat ?t := histories (state w) ! nat ?t @ [[CHR 0x0A], sigint_note]]\<rparr>"
  have "0 \<le> tab ?s1" "tab ?s1 < int (length (histories ?s1))"
    using assms by simp_all
  from rendered_in_range [OF this] obtain es where
    es: "render ?s1 = Inr es" "rendered ?s1 = (es, Inr ?s1)"
    by blast
  have p: "js_index (processes (state w)) (?t - 1) = Some (processes (state w) ! nat (?t - 1))"
    using assms by (intro js_index_in_range) auto
  have h: "js_index (histories (state w)) ?t = Some (histories (state w) ! nat ?t)"
    using assms by (intro js_index_in_range) auto
  have "terminateHandler keys_SIGINT w =
           (es @ [Kill (nat (?t - 1)) SIGINT],
            Inr (w\<lparr>exitListeners := push_at (exitListeners w) (nat (?t - 1)) [?t], state := ?s1\<rparr>))"
    using assms(1) by (simp add: terminateHandler_def Let_def p h es bind_io_simps)
  with es show ?thesis by blast
qed


lemma stdinData_child:
  assumes "0 < tab (state w)" "tab (state w) < int (length (histories (state w)))"
    "nat (tab (state w)) \<le> length (processes (state w))"
  shows "\<exists>es. render ((state w)\<lparr>histories := (histories (state w))
                  [nat (tab (state w)) := histories (state w) ! nat (tab (state w)) @ [[CHR 0x0A], sigint_note]]\<rparr>) = Inr es \<and>
          stdinData keys_SIGINT w =
           (es @ [Kill (nat (tab (state w) - 1)) SIGINT] @ es,
            Inr (w\<lparr>exitListeners := push_at (exitListeners w) (nat (tab (state w) - 1)) [tab (state w)],
                   state := (state w)\<lparr>histories := (histories (state w))
                  [nat (tab (state w)) := histories (state w) ! nat (tab (state w)) @ [[CHR 0x0A], sigint_note]]\<rparr>\<rparr>))"
proof -
  let ?t = "tab (state w)"
  let ?s1 = "(state w)\<lparr>histories := (histories (state w))
                  [nat ?t := histories (state w) ! nat ?t @ [[CHR 0x0A], sigint_note]]\<rparr>"
  let ?w1 = "w\<lparr>exitListeners := push_at (exitListeners w) (nat (?t - 1)) [?t], state := ?s1\<rparr>"
  from terminateHandler_child [OF assms] obtain es where
    es: "render ?s1 = Inr es"
      "terminateHandler keys_SIGINT w = (es @ [Kill (nat (?t - 1)) SIGINT], Inr ?w1)"
    by blast
  have r: "rendered ?s1 = (es, Inr ?s1)"
    by (simp add: rendered_def es)
  have "stdinData keys_SIGINT w = (es @ [Kill (nat (?t - 1)) SIGINT] @ es, Inr ?w1)"
    unfolding stdinData_def es(2)
    by (simp add: bind_io_simps arrowHandler_other keys_SIGINT_not_arrow r
        scrollHandler_no_scroll isScrollEvent_keys restartHandler_funpow)
  with es show ?thesis by blast
qed

lemma exitClosure_step:
  assumes "0 \<le> tab (state w)" "tab (state w) < int (length (histories (state w)))"
    "0 < t" "t < int (length (histories (state w)))"
  shows "\<exists>es. es \<noteq> [] \<and> exitClosure t w =
           (es, Inr (w\<lparr>state := (state w)\<lparr>histories := (histories (state w))
                        [0 := histories (state w) ! 0 @ [exited_message t],
                         nat t := histories (state w) ! nat t @ [[CHR 0x0A], restart_prompt t]]\<rparr>,
                      restartListeners := Suc (restartListeners w)\<rparr>))"
proof -
  let ?hs = "histories (state w)"
  let ?s1 = "(state w)\<lparr>histories := ?hs[0 := ?hs ! 0 @ [exited_message t]]\<rparr>"
  let ?s2 = "(state w)\<lparr>histories := ?hs[0 := ?hs ! 0 @ [exited_message t],
                         nat t := ?hs ! nat t @ [[CHR 0x0A], restart_prompt t]]\<rparr>"
  have "0 \<le> tab ?s1" "tab ?s1 < int (length (histories ?s1))"
    using assms by simp_all
  from rendered_in_range [OF this] obtain es1 where
    es1: "es1 \<noteq> []" "rendered ?s1 = (es1, Inr ?s1)"
    by blast
  have "0 \<le> tab ?s2" "tab ?s2 < int (length (histories ?s2))"
    using assms by simp_all
  from rendered_in_range [OF this] obtain es2 where
    es2: "rendered ?s2 = (es2, Inr ?s2)"
    by blast
  have ne: "0 < length ?hs"
    using assms by auto
  have mp: "main_print (exited_message t) (state w) = (es1, Inr ?s1)"
    using ne es1 by (simp add: main_print_def push_at_def)
  have ix: "js_index (?hs[0 := ?hs ! 0 @ [exited_message t]]) t = Some (?hs ! nat t)"
    using assms by (simp add: js_index_def)
  have "exitClosure t w =
          (if tab (state w) = t then es1 @ es2 else es1,
           Inr (w\<lparr>state := ?s2, restartListeners := Suc (restartListeners w)\<rparr>))"
    unfolding exitClosure_def mp
    by (simp add: bind_io_simps ix es2 [simplified] Let_def)
  with es1 show ?thesis by (cases "tab (state w) = t") auto
qed


lemma list_update_pair_again:
  "xs[i := a, j := b, i := c, j := d] = xs[i := c, j := d]"
  by (metis list_update_overwrite list_update_swap)

lemma run_exit_listeners_same:
  assumes "0 \<le> tab (state w)" "tab (state w) < int (length (histories (state w)))"
    "0 < t" "t < int (length (histories (state w)))"
  shows "\<exists>es. run_exit_listeners (replicate k t) w =
           (es, Inr (w\<lparr>state := (state w)\<lparr>histories := (histories (state w))
                        [0 := histories (state w) ! 0 @ replicate k (exited_message t),
                         nat t := histories (state w) ! nat t @
                                    concat (replicate k [[CHR 0x0A], restart_prompt t])]\<rparr>,
                      restartListeners := restartListeners w + k\<rparr>))"
  using assms
proof (induction k arbitrary: w)
  case 0
  show ?case by simp
next
  case (Suc k)
  let ?hs = "histories (state w)"
  let ?w1 = "w\<lparr>state := (state w)\<lparr>histories := ?hs
                        [0 := ?hs ! 0 @ [exited_message t],
                         nat t := ?hs ! nat t @ [[CHR 0x0A], restart_prompt t]]\<rparr>,
                      restartListeners := Suc (restartListeners w)\<rparr>"
  from exitClosure_step [OF Suc.prems] obtain es1 where
    c: "exitClosure t w = (es1, Inr ?w1)"
    by blast
  have v: "0 \<le> tab (state ?w1)" "tab (state ?w1) < int (length (histories (state ?w1)))"
    "0 < t" "t < int (length (histories (state ?w1)))"
    using Suc.prems by simp_all
  from Suc.IH [OF v] obtain es2 where
    r: "run_exit_listeners (replicate k t) ?w1 =
          (es2, Inr (?w1\<lparr>state := (state ?w1)\<lparr>histories := (histories (state ?w1))
                        [0 := histories (state ?w1) ! 0 @ replicate k (exited_message t),
                         nat t := histories (state ?w1) ! nat t @
                                    concat (replicate k [[CHR 0x0A], restart_prompt t])]\<rparr>,
                      restartListeners := restartListeners ?w1 + k\<rparr>))"
    by blast
  have n0: "nat t \<noteq> 0" "0 < length ?hs" "nat t < length ?hs"
    using Suc.prems by auto
  have "run_exit_listeners (replicate (Suc k) t) w =
          (es1 @ es2, Inr (w\<lparr>state := (state w)\<lparr>histories := ?hs
                        [0 := ?hs ! 0 @ replicate (Suc k) (exited_message t),
                         nat t := ?hs ! nat t @
                                    concat (replicate (Suc k) [[CHR 0x0A], restart_prompt t])]\<rparr>,
                      restartListeners := restartListeners w + Suc k\<rparr>))"
    using n0 by (simp add: c r bind_io_simps list_update_pair_again nth_list_update)
  then show ?case by blast
qed


lemma replicate_of_same: "set xs \<subseteq> {x} \<Longrightarrow> xs = replicate (length xs) x"
  by (induction xs) auto

text \<open>
  The part of claim C9 that is about the histories. Let a child tab \<open>t\<close> be active in a
  session whose listener table has one slot per process. The chunk \<open>0x03\<close> appends a
  blank line and the line \<open>Received SIGINT\<close> to the history of tab \<open>t\<close> and nothing else
  to any history, registers one more exit closure on process \<open>t - 1\<close>, writes a frame,
  signals that process with \<open>SIGINT\<close> and writes the frame again (\<open>arrowHandler\<close> redraws
  on every chunk). When the exit of process \<open>t - 1\<close> is later delivered to a session whose
  closures on that process all captured \<open>t\<close>, each closure appends the line
  \<open>Process 't' exited\<close> to the main history and a blank line and the restart prompt to
  the history of tab \<open>t\<close>, and registers one more \<open>restartHandler\<close>.
\<close>

theorem interrupt_on_child_tab:
  assumes "tab (state w) = t" "0 < t" "t < int (length (histories (state w)))"
    "nat t \<le> length (processes (state w))"
    "length (exitListeners w) = length (processes (state w))"
  shows "(\<exists>frame.
            render ((state w)\<lparr>histories := (histories (state w))
                      [nat t := histories (state w) ! nat t @ [[CHR 0x0A], sigint_note]]\<rparr>) = Inr frame \<and>
            dispatch (StdinData keys_SIGINT) w =
              (frame @ [Kill (nat (t - 1)) SIGINT] @ frame,
               Inr (w\<lparr>exitListeners := (exitListeners w)
                          [nat (t - 1) := exitListeners w ! nat (t - 1) @ [t]],
                      state := (state w)\<lparr>histories := (histories (state w))
                          [nat t := histories (state w) ! nat t @ [[CHR 0x0A], sigint_note]]\<rparr>\<rparr>))) \<and>
         (\<forall>w'. 0 \<le> tab (state w') \<and> tab (state w') < int (length (histories (state w'))) \<and>
               t < int (length (histories (state w'))) \<and>
               nat t \<le> length (processes (state w')) \<and>
               nat (t - 1) < length (exitListeners w') \<and>
               set (exitListeners w' ! nat (t - 1)) \<subseteq> {t} \<longrightarrow>
            (\<exists>es. dispatch (ChildExit (nat (t - 1))) w' =
               (es, Inr (w'\<lparr>state := (state w')\<lparr>histories := (histories (state w'))
                           [0 := histories (state w') ! 0 @
                                 replicate (length (exitListeners w' ! nat (t - 1))) (exited_message t),
                            nat t := histories (state w') ! nat t @
                                 concat (replicate (length (exitListeners w' ! nat (t - 1)))
                                           [[CHR 0x0A], restart_prompt t])]\<rparr>,
                         restartListeners :=
                           restartListeners w' + length (exitListeners w' ! nat (t - 1))\<rparr>))))"
proof (intro conjI allI impI)
  have a: "0 < tab (state w)" "tab (state w) < int (length (histories (state w)))"
    "nat (tab (state w)) \<le> length (processes (state w))"
    using assms by simp_all
  have "nat (t - 1) < length (processes (state w))"
    using assms(2,4) by linarith
  then have p: "push_at (exitListeners w) (nat (t - 1)) [t] =
             (exitListeners w)[nat (t - 1) := exitListeners w ! nat (t - 1) @ [t]]"
    using assms(5) by (simp add: push_at_def)
  from stdinData_child [OF a] show "\<exists>frame.
            render ((state w)\<lparr>histories := (histories (state w))
                      [nat t := histories (state w) ! nat t @ [[CHR 0x0A], sigint_note]]\<rparr>) = Inr frame \<and>
            dispatch (StdinData keys_SIGINT) w =
              (frame @ [Kill (nat (t - 1)) SIGINT] @ frame,
               Inr (w\<lparr>exitListeners := (exitListeners w)
                          [nat (t - 1) := exitListeners w ! nat (t - 1) @ [t]],
                      state := (state w)\<lparr>histories := (histories (state w))
                          [nat t := histories (state w) ! nat t @ [[CHR 0x0A], sigint_note]]\<rparr>\<rparr>))"
    unfolding assms(1) p by simp
next
  fix w' :: session
  assume h: "0 \<le> tab (state w') \<and> tab (state w') < int (length (histories (state w'))) \<and>
               t < int (length (histories (state w'))) \<and>
               nat t \<le> length (processes (state w')) \<and>
               nat (t - 1) < length (exitListeners w') \<and>
               set (exitListeners w' ! nat (t - 1)) \<subseteq> {t}"
  let ?ls = "exitListeners w' ! nat (t - 1)"
  have ls: "?ls = replicate (length ?ls) t"
    using h by (intro replicate_of_same) simp
  have v: "0 \<le> tab (state w')" "tab (state w') < int (length (histories (state w')))"
    "0 < t" "t < int (length (histories (state w')))"
    using h assms(2) by simp_all
  have i: "nat (t - 1) < length (processes (state w'))"
    using h assms(2) by auto
  from run_exit_listeners_same [OF v, where k = "length ?ls"] obtain es where
    "run_exit_listeners (replicate (length ?ls) t) w' =
           (es, Inr (w'\<lparr>state := (state w')\<lparr>histories := (histories (state w'))
                        [0 := histories (state w') ! 0 @ replicate (length ?ls) (exited_message t),
                         nat t := histories (state w') ! nat t @
                                    concat (replicate (length ?ls) [[CHR 0x0A], restart_prompt t])]\<rparr>,
                      restartListeners := restartListeners w' + length ?ls\<rparr>))"
    by blast
  then have "dispatch (ChildExit (nat (t - 1))) w' =
           (es, Inr (w'\<lparr>state := (state w')\<lparr>histories := (histories (state w'))
                        [0 := histories (state w') ! 0 @ replicate (length ?ls) (exited_message t),
                         nat t := histories (state w') ! nat t @
                                    concat (replicate (length ?ls) [[CHR 0x0A], restart_prompt t])]\<rparr>,
                      restartListeners := restartListeners w' + length ?ls\<rparr>))"
    using h i ls by (simp add: childExit_def)
  then show "\<exists>es. dispatch (ChildExit (nat (t - 1))) w' =
               (es, Inr (w'\<lparr>state := (state w')\<lparr>histories := (histories (state w'))
                           [0 := histories (state w') ! 0 @
                                 replicate (length (exitListeners w' ! nat (t - 1))) (exited_message t),
                            nat t := histories (state w') ! nat t @
                                 concat (replicate (length (exitListeners w' ! nat (t - 1)))
                                           [[CHR 0x0A], restart_prompt t])]\<rparr>,
                         restartListeners :=
                           restartListeners w' + length (exitListeners w' ! nat (t - 1))\<rparr>))"
    by blast
qed


theorem interrupt_on_child_tab_witness:
  "(\<exists>es. dispatch (StdinData keys_SIGINT)
     \<lparr>state = \<lparr>tab = 2, lines = 20, processes = [ChildProcess (''npx'', [''a'']), ChildProcess (''npx'', [''b''])],
              histories = [[''m''], [], [''out'']], cursor = 0\<rparr>,
      exitListeners = [[], []], restartListeners = 0, exitCode = None\<rparr> =
     (es, Inr \<lparr>state = \<lparr>tab = 2, lines = 20, processes = [ChildProcess (''npx'', [''a'']), ChildProcess (''npx'', [''b''])],
              histories = [[''m''], [], [''out'', [CHR 0x0A], sigint_note]], cursor = 0\<rparr>,
      exitListeners = [[], [2]], restartListeners = 0, exitCode = None\<rparr>)) \<and>
   (\<exists>es. dispatch (ChildExit 1)
     \<lparr>state = \<lparr>tab = 2, lines = 20, processes = [ChildProcess (''npx'', [''a'']), ChildProcess (''npx'', [''b''])],
              histories = [[''m''], [], [''out'', [CHR 0x0A], sigint_note]], cursor = 0\<rparr>,
      exitListeners = [[], [2]], restartListeners = 0, exitCode = None\<rparr> =
     (es, Inr \<lparr>state = \<lparr>tab = 2, lines = 20, processes = [ChildProcess (''npx'', [''a'']), ChildProcess (''npx'', [''b''])],
              histories = [[''m'', exited_message 2], [], [''out'', [CHR 0x0A], sigint_note, [CHR 0x0A], restart_prompt 2]], cursor = 0\<rparr>,
      exitListeners = [[], [2]], restartListeners = 1, exitCode = None\<rparr>))"
  (is "(\<exists>es. dispatch _ ?w0 = (es, Inr ?w1)) \<and> (\<exists>es. dispatch _ _ = (es, Inr ?w2))")
proof
  show "\<exists>es. dispatch (StdinData keys_SIGINT) ?w0 = (es, Inr ?w1)"
    using interrupt_on_child_tab [of ?w0 2, THEN conjunct1] by auto
next
  show "\<exists>es. dispatch (ChildExit 1) ?w1 = (es, Inr ?w2)"
    using interrupt_on_child_tab [of ?w0 2, THEN conjunct2, THEN spec, of ?w1] by auto
qed

section \<open>Reachable sessions\<close>

text \<open>
  Every session that start-up and the dispatch of events produce is well formed, so the
  side conditions of the theorems above hold throughout a run.
\<close>

lemma scrollHandler_cursor_only:
  "scrollHandler d s = (es, Inr s') \<Longrightarrow> \<exists>c. s' = s\<lparr>cursor := c\<rparr>"
proof -
  assume "scrollHandler d s = (es, Inr s')"
  then have "s\<lparr>cursor := cursor s'\<rparr> = s'"
    by (auto simp add: scrollHandler_def Let_def dest!: rendered_frame
        split: option.splits sum.splits if_splits)
  then show ?thesis by metis
qed

lemma updateActiveTab_data_cursor_only:
  "updateActiveTab_data i s = (es, Inr s') \<Longrightarrow> \<exists>c. s' = s\<lparr>cursor := c\<rparr>"
proof -
  assume "updateActiveTab_data i s = (es, Inr s')"
  then have "s\<lparr>cursor := cursor s'\<rparr> = s'"
    by (auto simp add: updateActiveTab_data_def dest!: rendered_frame
        split: option.splits if_splits)
  then show ?thesis by metis
qed

lemma bind_io_Inr:
  "bind_io m f = (es, Inr b) \<Longrightarrow>
   \<exists>es1 a es2. m = (es1, Inr a) \<and> f a = (es2, Inr b) \<and> es = es1 @ es2"
  by (cases m; cases "snd m") (auto simp add: bind_io_def split: prod.splits)

lemma bind_io_unit: "bind_io ([], Inr a) f = f a"
  by (simp add: bind_io_def split: prod.splits)

lemma well_formed_start:
  "viewProcessesInTabs commands = (es, Inr w) \<Longrightarrow> well_formed w"
  using viewProcessesInTabs_start [of commands] by (auto simp add: well_formed_def)

lemma well_formed_cursor:
  "well_formed w \<Longrightarrow> well_formed (w\<lparr>state := (state w)\<lparr>cursor := c\<rparr>\<rparr>)"
  by (simp add: well_formed_def)

lemma well_formed_stdinData:
  assumes "well_formed w" "stdinData d w = (es, Inr w')"
  shows "well_formed w'"
proof -
  have v: "0 \<le> tab (state w)" "tab (state w) < int (length (histories (state w)))"
    using assms(1) by (simp_all add: well_formed_def)
  consider (sigint) "d = keys_SIGINT" | (left) "d = keys_left" | (right) "d = keys_right"
    | (other) "d \<noteq> keys_SIGINT" "d \<noteq> keys_left" "d \<noteq> keys_right"
    by blast
  then show ?thesis
  proof cases
    case sigint
    show ?thesis
    proof (cases "tab (state w) = 0")
      case True
      from stdinData_main [OF True] assms(2) sigint show ?thesis by simp
    next
      case False
      then have a: "0 < tab (state w)" "tab (state w) < int (length (histories (state w)))"
        "nat (tab (state w)) \<le> length (processes (state w))"
        using assms(1) by (auto simp add: well_formed_def)
      from stdinData_child [OF a] assms(2) sigint
      have w': "w' = w\<lparr>exitListeners := push_at (exitListeners w) (nat (tab (state w) - 1)) [tab (state w)],
                   state := (state w)\<lparr>histories := (histories (state w))
                  [nat (tab (state w)) := histories (state w) ! nat (tab (state w)) @ [[CHR 0x0A], sigint_note]]\<rparr>\<rparr>"
        by auto
      have t: "int (nat (tab (state w) - 1)) + 1 = tab (state w)"
        using a by simp
      have n: "nat (tab (state w) - 1) < length (exitListeners w)"
        using a assms(1) by (auto simp add: well_formed_def)
      have l: "\<forall>i < length (exitListeners w). set (exitListeners w ! i) \<subseteq> {int i + 1}"
        "length (histories (state w)) = Suc (length (processes (state w)))"
        "length (exitListeners w) = length (processes (state w))"
        using assms(1) by (simp_all add: well_formed_def)
      have "\<forall>i < length (exitListeners w).
              set ((exitListeners w)[nat (tab (state w) - 1) :=
                     exitListeners w ! nat (tab (state w) - 1) @ [tab (state w)]] ! i) \<subseteq> {int i + 1}"
      proof (intro allI impI)
        fix i
        assume i: "i < length (exitListeners w)"
        show "set ((exitListeners w)[nat (tab (state w) - 1) :=
                     exitListeners w ! nat (tab (state w) - 1) @ [tab (state w)]] ! i) \<subseteq> {int i + 1}"
        proof (cases "i = nat (tab (state w) - 1)")
          case True
          from l(1) n have "set (exitListeners w ! nat (tab (state w) - 1)) \<subseteq>
              {int (nat (tab (state w) - 1)) + 1}"
            by blast
          then have "set (exitListeners w ! nat (tab (state w) - 1)) \<subseteq> {tab (state w)}"
            unfolding t .
          moreover have "int i + 1 = tab (state w)"
            unfolding True t ..
          ultimately show ?thesis
            using n by (simp add: True)
        next
          case False
          with i l(1) show ?thesis by (simp add: nth_list_update)
        qed
      qed
      then show ?thesis
        unfolding w' well_formed_def using v l(2,3) n
        by (simp add: push_at_def)
    qed
  next
    case left
    from stdinData_left [OF v] assms(2) left v show ?thesis
      using assms(1) by (auto simp add: well_formed_def)
  next
    case right
    from stdinData_right [OF v] assms(2) right v show ?thesis
      using assms(1) by (auto simp add: well_formed_def)
  next
    case other
    from rendered_in_range [OF v] obtain fr where fr: "rendered (state w) = (fr, Inr (state w))"
      by blast
    have "stdinData d w =
            bind_io (rendered (state w))
              (\<lambda>s2. bind_io (scrollHandler d s2) (\<lambda>s3. ([], Inr (w\<lparr>state := s3\<rparr>))))"
      by (simp add: stdinData_def terminateHandler_other other arrowHandler_other bind_io_unit
          restartHandler_funpow)
    with assms(2) fr have "bind_io (scrollHandler d (state w)) (\<lambda>s3. ([], Inr (w\<lparr>state := s3\<rparr>))) =
        (drop (length fr) es, Inr w')"
      by (auto simp add: bind_io_def split: prod.splits sum.splits)
    from bind_io_Inr [OF this] obtain es2 s3 where "scrollHandler d (state w) = (es2, Inr s3)"
      and w': "w' = w\<lparr>state := s3\<rparr>"
      by auto
    then obtain c where "s3 = (state w)\<lparr>cursor := c\<rparr>"
      using scrollHandler_cursor_only by blast
    with w' well_formed_cursor [OF assms(1)] show ?thesis by simp
  qed
qed


lemma well_formed_childData:
  assumes "well_formed w" "childData i d w = (es, Inr w')"
  shows "well_formed w'"
proof -
  let ?s1 = "if Suc i < length (histories (state w))
             then (state w)\<lparr>histories := (histories (state w))
                    [Suc i := trackHistory_data (trackHistory_retention (Some 1000))
                                (histories (state w) ! Suc i) d]\<rparr>
             else state w"
  from assms(2) have "bind_io (updateActiveTab_data i ?s1) (\<lambda>s2. ([], Inr (w\<lparr>state := s2\<rparr>))) =
      (es, Inr w')"
    unfolding childData_def Let_def .
  from bind_io_Inr [OF this] obtain es1 s2 where
    u: "updateActiveTab_data i ?s1 = (es1, Inr s2)" and w': "w' = w\<lparr>state := s2\<rparr>"
    by auto
  from updateActiveTab_data_cursor_only [OF u] obtain c where s2: "s2 = ?s1\<lparr>cursor := c\<rparr>"
    by blast
  show ?thesis
    unfolding w' s2 using assms(1) by (simp add: well_formed_def)
qed

lemma well_formed_childExit:
  assumes "well_formed w" "i < length (processes (state w))" "childExit i w = (es, Inr w')"
  shows "well_formed w'"
proof -
  let ?t = "int i + 1"
  let ?ls = "exitListeners w ! i"
  have l: "length (histories (state w)) = Suc (length (processes (state w)))"
    "length (exitListeners w) = length (processes (state w))"
    "set ?ls \<subseteq> {?t}"
    using assms(1,2) by (simp_all add: well_formed_def)
  have v: "0 \<le> tab (state w)" "tab (state w) < int (length (histories (state w)))"
    "0 < ?t" "?t < int (length (histories (state w)))"
    using assms(1,2) l by (simp_all add: well_formed_def)
  have ls: "?ls = replicate (length ?ls) ?t"
    using l(3) by (rule replicate_of_same)
  from run_exit_listeners_same [OF v, where k = "length ?ls"] obtain es1 where
    "run_exit_listeners (replicate (length ?ls) ?t) w =
           (es1, Inr (w\<lparr>state := (state w)\<lparr>histories := (histories (state w))
                        [0 := histories (state w) ! 0 @ replicate (length ?ls) (exited_message ?t),
                         nat ?t := histories (state w) ! nat ?t @
                                    concat (replicate (length ?ls) [[CHR 0x0A], restart_prompt ?t])]\<rparr>,
                      restartListeners := restartListeners w + length ?ls\<rparr>))"
    by blast
  with ls have "run_exit_listeners ?ls w =
           (es1, Inr (w\<lparr>state := (state w)\<lparr>histories := (histories (state w))
                        [0 := histories (state w) ! 0 @ replicate (length ?ls) (exited_message ?t),
                         nat ?t := histories (state w) ! nat ?t @
                                    concat (replicate (length ?ls) [[CHR 0x0A], restart_prompt ?t])]\<rparr>,
                      restartListeners := restartListeners w + length ?ls\<rparr>))"
    by simp
  with assms(2,3) l(2) have "w' = w\<lparr>state := (state w)\<lparr>histories := (histories (state w))
                        [0 := histories (state w) ! 0 @ replicate (length ?ls) (exited_message ?t),
                         nat ?t := histories (state w) ! nat ?t @
                                    concat (replicate (length ?ls) [[CHR 0x0A], restart_prompt ?t])]\<rparr>,
                      restartListeners := restartListeners w + length ?ls\<rparr>"
    by (simp add: childExit_def)
  then show ?thesis
    using assms(1) by (simp add: well_formed_def)
qed

lemma well_formed_dispatch:
  assumes "well_formed w" "dispatch e w = (es, Inr w')"
  shows "well_formed w'"
proof (cases e)
  case (StdinData d)
  with assms show ?thesis by (simp add: well_formed_stdinData)
next
  case (ChildData i d)
  with assms show ?thesis
    by (cases "i < length (processes (state w))") (auto intro: well_formed_childData)
next
  case (ChildExit i)
  with assms show ?thesis
    by (cases "i < length (processes (state w))") (auto intro: well_formed_childExit)
qed

lemma well_formed_run:
  "well_formed w \<Longrightarrow> run evs w = (es, Inr w') \<Longrightarrow> well_formed w'"
proof (induction evs arbitrary: w es)
  case Nil
  then show ?case by simp
next
  case (Cons e evs)
  from Cons.prems(2) have "bind_io (dispatch e w) (run evs) = (es, Inr w')"
    by simp
  from bind_io_Inr [OF this] obtain es1 w1 es2 where
    "dispatch e w = (es1, Inr w1)" "run evs w1 = (es2, Inr w')"
    by blast
  with Cons.IH well_formed_dispatch [OF Cons.prems(1)] show ?case
    by blast
qed

section \<open>Scroll chunks through the whole dispatch\<close>

lemma scroll_chunk_not_key:
  assumes "isScrollEvent d = Some x"
  shows "d \<noteq> keys_SIGINT" "d \<noteq> keys_left" "d \<noteq> keys_right"
  using assms isScrollEvent_keys by auto

lemma stdinData_scroll:
  assumes "0 \<le> tab (state w)" "tab (state w) < int (length (histories (state w)))"
    "isScrollEvent d = Some x" "render (state w) = Inr before"
  shows "stdinData d w =
           (before @ fst (scrollHandler d (state w)),
            case snd (scrollHandler d (state w)) of
              Inl h \<Rightarrow> Inl h | Inr s \<Rightarrow> Inr (w\<lparr>state := s\<rparr>))"
proof -
  have r: "rendered (state w) = (before, Inr (state w))"
    using assms(4) by (simp add: rendered_def)
  show ?thesis
    by (simp add: stdinData_def terminateHandler_other arrowHandler_other
        scroll_chunk_not_key [OF assms(3)] r bind_io_unit restartHandler_funpow bind_io_def
        split: prod.splits sum.splits)
qed

text \<open>
  Claim C6, as the program has it. A chunk on stdin goes to \<open>arrowHandler\<close> before it
  goes to \<open>scrollHandler\<close>, and \<open>arrowHandler\<close> ends with \<open>render(state)\<close> whatever the chunk
  is. In a session whose \<open>tab\<close> is an index of \<open>histories\<close>, the dispatch of a chunk decoded
  as direction \<open>-1\<close> leaves the cursor at \<open>max(0, cursor - 1)\<close>, and one decoded as direction
  \<open>1\<close> leaves it at \<open>min(max(0, length of the active history - lines), cursor + 1)\<close>. It
  always writes the frame of the state as it was, and after it the frame of the new state
  exactly when the new cursor differs from the old one.
\<close>

theorem scroll_chunk_dispatch:
  assumes "0 \<le> tab (state w)" "tab (state w) < int (length (histories (state w)))"
  shows "(isScrollEvent d = Some (- 1) \<longrightarrow>
            (\<exists>before after.
               render (state w) = Inr before \<and> before \<noteq> [] \<and>
               render ((state w)\<lparr>cursor := max 0 (cursor (state w) - 1)\<rparr>) = Inr after \<and>
               after \<noteq> [] \<and>
               dispatch (StdinData d) w =
                 (before @ (if max 0 (cursor (state w) - 1) \<noteq> cursor (state w) then after else []),
                  Inr (w\<lparr>state := (state w)\<lparr>cursor := max 0 (cursor (state w) - 1)\<rparr>\<rparr>)))) \<and>
         (isScrollEvent d = Some 1 \<longrightarrow>
            (\<exists>before after.
               render (state w) = Inr before \<and> before \<noteq> [] \<and>
               render ((state w)\<lparr>cursor :=
                  min (maxCursor (histories (state w) ! nat (tab (state w))) (lines (state w)))
                      (cursor (state w) + 1)\<rparr>) = Inr after \<and>
               after \<noteq> [] \<and>
               dispatch (StdinData d) w =
                 (before @
                    (if min (maxCursor (histories (state w) ! nat (tab (state w))) (lines (state w)))
                            (cursor (state w) + 1) \<noteq> cursor (state w)
                     then after else []),
                  Inr (w\<lparr>state := (state w)\<lparr>cursor :=
                     min (maxCursor (histories (state w) ! nat (tab (state w))) (lines (state w)))
                         (cursor (state w) + 1)\<rparr>\<rparr>))))"
proof (intro conjI impI)
  from rendered_in_range [OF assms] obtain before where
    b: "render (state w) = Inr before" "before \<noteq> []"
    by blast
  {
    assume up: "isScrollEvent d = Some (- 1)"
    let ?c = "max 0 (cursor (state w) - 1)"
    from rendered_cursor_in_range [OF assms, of ?c] obtain after where
      a: "render ((state w)\<lparr>cursor := ?c\<rparr>) = Inr after" "after \<noteq> []"
        "rendered ((state w)\<lparr>cursor := ?c\<rparr>) = (after, Inr ((state w)\<lparr>cursor := ?c\<rparr>))"
      by blast
    have same: "?c = cursor (state w) \<Longrightarrow> w\<lparr>state := (state w)\<lparr>cursor := ?c\<rparr>\<rparr> = w"
      by simp
    have "dispatch (StdinData d) w =
            (before @ (if ?c \<noteq> cursor (state w) then after else []),
             Inr (w\<lparr>state := (state w)\<lparr>cursor := ?c\<rparr>\<rparr>))"
    proof (cases "?c = cursor (state w)")
      case True
      with same [OF True] show ?thesis
        by (simp add: stdinData_scroll [OF assms up b(1)] scrollHandler_up [OF assms up])
    next
      case False
      then show ?thesis
        by (simp add: stdinData_scroll [OF assms up b(1)] scrollHandler_up [OF assms up] a)
    qed
    with a b show "\<exists>before after.
               render (state w) = Inr before \<and> before \<noteq> [] \<and>
               render ((state w)\<lparr>cursor := ?c\<rparr>) = Inr after \<and> after \<noteq> [] \<and>
               dispatch (StdinData d) w =
                 (before @ (if ?c \<noteq> cursor (state w) then after else []),
                  Inr (w\<lparr>state := (state w)\<lparr>cursor := ?c\<rparr>\<rparr>))"
      by blast
  }
  {
    assume down: "isScrollEvent d = Some 1"
    let ?c = "min (maxCursor (histories (state w) ! nat (tab (state w))) (lines (state w)))
                  (cursor (state w) + 1)"
    from rendered_cursor_in_range [OF assms, of ?c] obtain after where
      a: "render ((state w)\<lparr>cursor := ?c\<rparr>) = Inr after" "after \<noteq> []"
        "rendered ((state w)\<lparr>cursor := ?c\<rparr>) = (after, Inr ((state w)\<lparr>cursor := ?c\<rparr>))"
      by blast
    have same: "?c = cursor (state w) \<Longrightarrow> w\<lparr>state := (state w)\<lparr>cursor := ?c\<rparr>\<rparr> = w"
      by simp
    have "dispatch (StdinData d) w =
            (before @ (if ?c \<noteq> cursor (state w) then after else []),
             Inr (w\<lparr>state := (state w)\<lparr>cursor := ?c\<rparr>\<rparr>))"
    proof (cases "?c = cursor (state w)")
      case True
      with same [OF True] show ?thesis
        by (simp add: stdinData_scroll [OF assms down b(1)] scrollHandler_down [OF assms down])
    next
      case False
      then show ?thesis
        by (simp add: stdinData_scroll [OF assms down b(1)] scrollHandler_down [OF assms down] a)
    qed
    with a b show "\<exists>before after.
               render (state w) = Inr before \<and> before \<noteq> [] \<and>
               render ((state w)\<lparr>cursor := ?c\<rparr>) = Inr after \<and> after \<noteq> [] \<and>
               dispatch (StdinData d) w =
                 (before @ (if ?c \<noteq> cursor (state w) then after else []),
                  Inr (w\<lparr>state := (state w)\<lparr>cursor := ?c\<rparr>\<rparr>))"
      by blast
  }
qed


theorem scroll_chunk_dispatch_witness:
  "(\<exists>before after. before \<noteq> [] \<and> after \<noteq> [] \<and>
      dispatch (StdinData [0x1b, 0x5b, 0x4d, 0x61])
        \<lparr>state = \<lparr>tab = 1, lines = 2, processes = [ChildProcess (''npx'', [])],
                histories = [[''a''], [''b'', ''c'', ''d'']], cursor = 1\<rparr>,
      exitListeners = [[]], restartListeners = 0, exitCode = None\<rparr> =
      (before @ after, Inr \<lparr>state = \<lparr>tab = 1, lines = 2, processes = [ChildProcess (''npx'', [])],
                histories = [[''a''], [''b'', ''c'', ''d'']], cursor = 0\<rparr>,
      exitListeners = [[]], restartListeners = 0, exitCode = None\<rparr>)) \<and>
   (\<exists>before. before \<noteq> [] \<and>
      dispatch (StdinData [0x1b, 0x5b, 0x4d, 0x60])
        \<lparr>state = \<lparr>tab = 1, lines = 2, processes = [ChildProcess (''npx'', [])],
                histories = [[''a''], [''b'', ''c'', ''d'']], cursor = 1\<rparr>,
      exitListeners = [[]], restartListeners = 0, exitCode = None\<rparr> =
      (before, Inr \<lparr>state = \<lparr>tab = 1, lines = 2, processes = [ChildProcess (''npx'', [])],
                histories = [[''a''], [''b'', ''c'', ''d'']], cursor = 1\<rparr>,
      exitListeners = [[]], restartListeners = 0, exitCode = None\<rparr>))"
  (is "(\<exists>before after. _ \<and> _ \<and> dispatch _ ?w = _) \<and> _")
proof
  from scroll_chunk_dispatch [of ?w "[0x1b, 0x5b, 0x4d, 0x61]", THEN conjunct1]
  show "\<exists>before after. before \<noteq> [] \<and> after \<noteq> [] \<and>
      dispatch (StdinData [0x1b, 0x5b, 0x4d, 0x61]) ?w =
      (before @ after, Inr \<lparr>state = \<lparr>tab = 1, lines = 2, processes = [ChildProcess (''npx'', [])],
                histories = [[''a''], [''b'', ''c'', ''d'']], cursor = 0\<rparr>,
      exitListeners = [[]], restartListeners = 0, exitCode = None\<rparr>)"
    by (auto simp add: isScrollEvent_chunks)
next
  from scroll_chunk_dispatch [of ?w "[0x1b, 0x5b, 0x4d, 0x60]", THEN conjunct2]
  show "\<exists>before. before \<noteq> [] \<and>
      dispatch (StdinData [0x1b, 0x5b, 0x4d, 0x60]) ?w = (before, Inr ?w)"
    by (auto simp add: isScrollEvent_chunks maxCursor_def)
qed

text \<open>
  The cursor is at 0 and a chunk decoded as direction \<open>-1\<close> arrives: the session is left
  as it was, cursor included, and a frame has been written all the same.
\<close>

theorem scroll_at_top_redraws_counterexample:
  "isScrollEvent [0x1b, 0x5b, 0x4d, 0x61] = Some (- 1) \<and>
   snd (dispatch (StdinData [0x1b, 0x5b, 0x4d, 0x61])
          \<lparr>state = \<lparr>tab = 1, lines = 2, processes = [ChildProcess (''npx'', [])],
                histories = [[''a''], [''b'', ''c'', ''d'']], cursor = 0\<rparr>,
      exitListeners = [[]], restartListeners = 0, exitCode = None\<rparr>) =
     Inr \<lparr>state = \<lparr>tab = 1, lines = 2, processes = [ChildProcess (''npx'', [])],
                histories = [[''a''], [''b'', ''c'', ''d'']], cursor = 0\<rparr>,
      exitListeners = [[]], restartListeners = 0, exitCode = None\<rparr> \<and>
   render (state \<lparr>state = \<lparr>tab = 1, lines = 2, processes = [ChildProcess (''npx'', [])],
                histories = [[''a''], [''b'', ''c'', ''d'']], cursor = 0\<rparr>,
      exitListeners = [[]], restartListeners = 0, exitCode = None\<rparr>) =
     Inr (fst (dispatch (StdinData [0x1b, 0x5b, 0x4d, 0x61])
          \<lparr>state = \<lparr>tab = 1, lines = 2, processes = [ChildProcess (''npx'', [])],
                histories = [[''a''], [''b'', ''c'', ''d'']], cursor = 0\<rparr>,
      exitListeners = [[]], restartListeners = 0, exitCode = None\<rparr>)) \<and>
   fst (dispatch (StdinData [0x1b, 0x5b, 0x4d, 0x61])
          \<lparr>state = \<lparr>tab = 1, lines = 2, processes = [ChildProcess (''npx'', [])],
                histories = [[''a''], [''b'', ''c'', ''d'']], cursor = 0\<rparr>,
      exitListeners = [[]], restartListeners = 0, exitCode = None\<rparr>) \<noteq> []"
  (is "_ \<and> snd (dispatch _ ?w) = _ \<and> _ \<and> _")
proof -
  have v: "0 \<le> tab (state ?w)" "tab (state ?w) < int (length (histories (state ?w)))"
    by simp_all
  from rendered_in_range [OF v] obtain before where
    b: "render (state ?w) = Inr before" "before \<noteq> []"
    by blast
  note up = isScrollEvent_chunks(1)
  have "dispatch (StdinData [0x1b, 0x5b, 0x4d, 0x61]) ?w = (before, Inr ?w)"
    by (simp add: stdinData_scroll [OF v up b(1)] scrollHandler_up [OF v up, simplified])
  with b up show ?thesis by simp
qed

section \<open>Retention in a session\<close>

lemma drop_snoc_step:
  assumes "R < length xs"
  shows "drop (Suc (length (drop (length xs - R) xs)) - R) (drop (length xs - R) xs @ [d]) =
         drop (Suc (length xs) - R) (xs @ [d])"
proof -
  have l: "length (drop (length xs - R) xs) = R"
    using assms by simp
  have k: "Suc (length xs) - R = Suc (length xs - R)"
    using assms by simp
  have "drop (Suc 0) (drop (length xs - R) xs @ [d]) = drop (Suc 0) (drop (length xs - R) (xs @ [d]))"
    by simp
  also have "\<dots> = drop (Suc (length xs - R)) (xs @ [d])"
    by (simp add: drop_drop del: drop_append)
  finally show ?thesis
    unfolding l k by simp
qed

lemma foldl_trackHistory_data_from:
  assumes "ds \<noteq> [] \<or> length h \<le> R"
  shows "foldl (trackHistory_data (int R)) h ds = drop (length h + length ds - R) (h @ ds)"
  using assms
proof (induction ds rule: rev_induct)
  case Nil
  then show ?case by simp
next
  case (snoc d ds)
  let ?k = "length h + length ds - R"
  have step: "foldl (trackHistory_data (int R)) h (ds @ [d]) =
                trackHistory_data (int R) (foldl (trackHistory_data (int R)) h ds) d"
    by simp
  show ?case
  proof (cases "ds = []")
    case True
    have "trackHistory_data (int R) h d = drop (Suc (length h) - R) (h @ [d])"
      by (rule trackHistory_data_drop)
    with True show ?thesis by simp
  next
    case False
    then have ih: "foldl (trackHistory_data (int R)) h ds = drop ?k (h @ ds)"
      using snoc.IH by simp
    have "trackHistory_data (int R) (drop ?k (h @ ds)) d =
            drop (Suc (length (drop ?k (h @ ds))) - R) (drop ?k (h @ ds) @ [d])"
      by (rule trackHistory_data_drop)
    also have "\<dots> = drop (length h + length (ds @ [d]) - R) (h @ ds @ [d])"
    proof (cases "length h + length ds \<le> R")
      case True
      then show ?thesis by simp
    next
      case False
      then have n: "R < length (h @ ds)" by simp
      have k: "?k = length (h @ ds) - R" by simp
      have "drop (Suc (length (drop ?k (h @ ds))) - R) (drop ?k (h @ ds) @ [d]) =
              drop (Suc (length (h @ ds)) - R) ((h @ ds) @ [d])"
        unfolding k by (rule drop_snoc_step [OF n])
      also have "\<dots> = drop (length h + length (ds @ [d]) - R) (h @ ds @ [d])"
        by simp
      finally show ?thesis .
    qed
    finally show ?thesis
      unfolding step ih by simp
  qed
qed

lemma childData_step:
  assumes "0 \<le> tab (state w)" "tab (state w) < int (length (histories (state w)))"
    "Suc i < length (histories (state w))"
  shows "\<exists>es c. childData i d w =
           (es, Inr (w\<lparr>state := (state w)\<lparr>histories := (histories (state w))
                [Suc i := trackHistory_data 1000 (histories (state w) ! Suc i) d],
              cursor := c\<rparr>\<rparr>))"
proof -
  let ?s1 = "(state w)\<lparr>histories := (histories (state w))
                [Suc i := trackHistory_data 1000 (histories (state w) ! Suc i) d]\<rparr>"
  have v: "0 \<le> tab ?s1" "tab ?s1 < int (length (histories ?s1))"
    using assms by simp_all
  have "\<exists>es c. updateActiveTab_data i ?s1 = (es, Inr (?s1\<lparr>cursor := c\<rparr>))"
  proof (cases "tab ?s1 = int i + 1")
    case True
    have a: "Suc i < length (histories ?s1)"
      using assms by simp
    let ?tail = "maxCursor (histories ?s1 ! Suc i) (lines ?s1)"
    from rendered_cursor_in_range [OF v, of ?tail] obtain fr where
      fr: "rendered (?s1\<lparr>cursor := ?tail\<rparr>) = (fr, Inr (?s1\<lparr>cursor := ?tail\<rparr>))"
      by blast
    have same: "?s1\<lparr>cursor := cursor ?s1\<rparr> = ?s1"
      by simp
    show ?thesis
    proof (cases "cursor ?s1 > ?tail - 2")
      case True
      with updateActiveTab_data_active [OF \<open>tab ?s1 = int i + 1\<close> a] fr
      have "updateActiveTab_data i ?s1 = (fr, Inr (?s1\<lparr>cursor := ?tail\<rparr>))"
        by simp
      then show ?thesis by blast
    next
      case False
      with updateActiveTab_data_active [OF \<open>tab ?s1 = int i + 1\<close> a] same
      have "updateActiveTab_data i ?s1 = ([], Inr (?s1\<lparr>cursor := cursor ?s1\<rparr>))"
        by simp
      then show ?thesis by blast
    qed
  next
    case False
    have "?s1\<lparr>cursor := cursor ?s1\<rparr> = ?s1"
      by simp
    with False have "updateActiveTab_data i ?s1 = ([], Inr (?s1\<lparr>cursor := cursor ?s1\<rparr>))"
      by (simp add: updateActiveTab_data_def)
    then show ?thesis by blast
  qed
  then obtain es c where u: "updateActiveTab_data i ?s1 = (es, Inr (?s1\<lparr>cursor := c\<rparr>))"
    by blast
  have "childData i d w = (es, Inr (w\<lparr>state := ?s1\<lparr>cursor := c\<rparr>\<rparr>))"
    unfolding childData_def Let_def using assms(3)
    by (simp add: u [simplified] bind_io_simps)
  then show ?thesis by blast
qed


lemma run_childData:
  assumes "0 \<le> tab (state w)" "tab (state w) < int (length (histories (state w)))"
    "Suc i < length (histories (state w))" "i < length (processes (state w))"
  shows "\<exists>es c. run (map (ChildData i) ds) w =
           (es, Inr (w\<lparr>state := (state w)\<lparr>histories := (histories (state w))
                [Suc i := foldl (trackHistory_data 1000) (histories (state w) ! Suc i) ds],
              cursor := c\<rparr>\<rparr>))"
  using assms
proof (induction ds arbitrary: w)
  case Nil
  have "w\<lparr>state := (state w)\<lparr>histories := (histories (state w))
                [Suc i := histories (state w) ! Suc i], cursor := cursor (state w)\<rparr>\<rparr> = w"
    by simp
  then have "run (map (ChildData i) []) w =
           ([], Inr (w\<lparr>state := (state w)\<lparr>histories := (histories (state w))
                [Suc i := foldl (trackHistory_data 1000) (histories (state w) ! Suc i) []],
              cursor := cursor (state w)\<rparr>\<rparr>))"
    by simp
  then show ?case by blast
next
  case (Cons d ds)
  from childData_step [OF Cons.prems(1-3), of d] obtain es1 c1 where
    s: "childData i d w =
           (es1, Inr (w\<lparr>state := (state w)\<lparr>histories := (histories (state w))
                [Suc i := trackHistory_data 1000 (histories (state w) ! Suc i) d],
              cursor := c1\<rparr>\<rparr>))"
    by blast
  let ?w1 = "w\<lparr>state := (state w)\<lparr>histories := (histories (state w))
                [Suc i := trackHistory_data 1000 (histories (state w) ! Suc i) d],
              cursor := c1\<rparr>\<rparr>"
  have v: "0 \<le> tab (state ?w1)" "tab (state ?w1) < int (length (histories (state ?w1)))"
    "Suc i < length (histories (state ?w1))" "i < length (processes (state ?w1))"
    using Cons.prems by simp_all
  from Cons.IH [OF v] obtain es2 c2 where
    r: "run (map (ChildData i) ds) ?w1 =
           (es2, Inr (?w1\<lparr>state := (state ?w1)\<lparr>histories := (histories (state ?w1))
                [Suc i := foldl (trackHistory_data 1000) (histories (state ?w1) ! Suc i) ds],
              cursor := c2\<rparr>\<rparr>))"
    by blast
  have "run (map (ChildData i) (d # ds)) w =
           (es1 @ es2, Inr (w\<lparr>state := (state w)\<lparr>histories := (histories (state w))
                [Suc i := foldl (trackHistory_data 1000) (histories (state w) ! Suc i) (d # ds)],
              cursor := c2\<rparr>\<rparr>))"
    using Cons.prems(3,4) by (simp add: s r [simplified] bind_io_simps)
  then show ?case by blast
qed

text \<open>
  Claim C4, as the program has it. The listener of \<open>trackHistory\<close> turns a buffer \<open>h\<close> and a
  chunk into the last \<open>R\<close> entries of \<open>h\<close> followed by the chunk, so that from the empty
  buffer a sequence of chunks leaves its last \<open>R\<close> chunks, in order. In a session the
  retention is 1000: after a non-empty sequence \<open>ds\<close> of chunks from process \<open>i\<close> the
  buffer of tab \<open>i + 1\<close> is the last 1000 entries of what it held before followed by \<open>ds\<close>,
  the other buffers are what they were, and that buffer holds at most 1000 entries.
  This is a statement about the moments after output: other handlers push onto the same
  array without trimming it.
\<close>

theorem child_output_retention:
  "(trackHistory_data (int R) h d = drop (Suc (length h) - R) (h @ [d]) \<and>
    length (trackHistory_data (int R) h d) \<le> R \<and>
    foldl (trackHistory_data (int R)) [] ds = drop (length ds - R) ds) \<and>
   (well_formed w \<and> i < length (processes (state w)) \<and> ds \<noteq> [] \<longrightarrow>
      (\<exists>es w'. run (map (ChildData i) ds) w = (es, Inr w') \<and>
         histories (state w') = (histories (state w))
           [Suc i := drop (length (histories (state w) ! Suc i) + length ds - 1000)
                       (histories (state w) ! Suc i @ ds)] \<and>
         length (histories (state w') ! Suc i) \<le> 1000))"
proof (intro conjI impI)
  show "trackHistory_data (int R) h d = drop (Suc (length h) - R) (h @ [d])"
    by (rule trackHistory_data_drop)
  have "Suc (length h) - (Suc (length h) - R) \<le> R" by arith
  then show "length (trackHistory_data (int R) h d) \<le> R"
    by (simp add: trackHistory_data_drop)
  show "foldl (trackHistory_data (int R)) [] ds = drop (length ds - R) ds"
    by (rule foldl_trackHistory_data)
next
  assume a: "well_formed w \<and> i < length (processes (state w)) \<and> ds \<noteq> []"
  let ?h = "histories (state w) ! Suc i"
  have v: "0 \<le> tab (state w)" "tab (state w) < int (length (histories (state w)))"
    "Suc i < length (histories (state w))" "i < length (processes (state w))"
    using a by (simp_all add: well_formed_def)
  from run_childData [OF v, of ds] obtain es c where
    r: "run (map (ChildData i) ds) w =
           (es, Inr (w\<lparr>state := (state w)\<lparr>histories := (histories (state w))
                [Suc i := foldl (trackHistory_data 1000) ?h ds], cursor := c\<rparr>\<rparr>))"
    by blast
  have "foldl (trackHistory_data (int 1000)) ?h ds = drop (length ?h + length ds - 1000) (?h @ ds)"
    using a by (intro foldl_trackHistory_data_from) simp
  then have f: "foldl (trackHistory_data 1000) ?h ds = drop (length ?h + length ds - 1000) (?h @ ds)"
    by simp
  have l: "length ?h + length ds - (length ?h + length ds - 1000) \<le> 1000"
    by arith
  let ?w' = "w\<lparr>state := (state w)\<lparr>histories := (histories (state w))
                [Suc i := drop (length ?h + length ds - 1000) (?h @ ds)], cursor := c\<rparr>\<rparr>"
  have "run (map (ChildData i) ds) w = (es, Inr ?w')"
    using r f by simp
  moreover have "histories (state ?w') = (histories (state w))
           [Suc i := drop (length ?h + length ds - 1000) (?h @ ds)]"
    by simp
  moreover have "length (histories (state ?w') ! Suc i) \<le> 1000"
    using v(3) l by simp
  ultimately show "\<exists>es w'. run (map (ChildData i) ds) w = (es, Inr w') \<and>
         histories (state w') = (histories (state w))
           [Suc i := drop (length ?h + length ds - 1000) (?h @ ds)] \<and>
         length (histories (state w') ! Suc i) \<le> 1000"
    by blast
qed


theorem child_output_retention_witness:
  "\<exists>es w'. run [ChildData 0 ''y'']
       \<lparr>state = \<lparr>tab = 1, lines = 20, processes = [ChildProcess (''npx'', [])],
             histories = [[], replicate 1000 ''x''], cursor = 980\<rparr>,
      exitListeners = [[]], restartListeners = 0, exitCode = None\<rparr> = (es, Inr w') \<and>
     histories (state w') = [[], replicate 999 ''x'' @ [''y'']] \<and>
     length (histories (state w') ! 1) \<le> 1000"
  (is "\<exists>es w'. run _ ?w = _ \<and> _ \<and> _")
proof -
  have "well_formed ?w \<and> 0 < length (processes (state ?w)) \<and> [''y''] \<noteq> []"
    by (simp add: well_formed_def)
  with child_output_retention [where w = ?w and i = 0 and ds = "[''y'']", THEN conjunct2]
  show ?thesis
    by (auto simp add: numeral_eq_Suc)
qed

text \<open>
  One command is started, its process writes 1000 chunks, the right arrow selects its
  tab and the chunk \<open>0x03\<close> arrives: \<open>terminateHandler\<close> pushes its two lines onto the
  buffer of the tab, which now holds 1002 entries.
\<close>

theorem child_buffer_exceeds_retention_counterexample:
  "final_state (bind_io (viewProcessesInTabs [(''npx'', [])])
      (run (replicate 1000 (ChildData 0 ''x'') @ [StdinData keys_right, StdinData keys_SIGINT]))) =
     Some \<lparr>tab = 1, lines = 20, processes = [ChildProcess (''npx'', [])],
           histories = [[''Initialized!'' @ [CHR 0x0A]], replicate 1000 ''x'' @ [[CHR 0x0A], sigint_note]], cursor = 980\<rparr> \<and>
   length (replicate 1000 ''x'' @ [[CHR 0x0A], sigint_note]) = 1002"
proof
  let ?w0 = "\<lparr>state = \<lparr>tab = 0, lines = 20, processes = [ChildProcess (''npx'', [])],
           histories = [[''Initialized!'' @ [CHR 0x0A]], []], cursor = 0\<rparr>,
             exitListeners = [[]], restartListeners = 0, exitCode = None\<rparr>"
  let ?w1 = "?w0\<lparr>state := (state ?w0)\<lparr>histories :=
                [[''Initialized!'' @ [CHR 0x0A]], replicate 1000 ''x'']\<rparr>\<rparr>"
  let ?w2 = "?w1\<lparr>state := (state ?w1)\<lparr>tab := 1, cursor := 980\<rparr>\<rparr>"
  let ?w3 = "?w2\<lparr>exitListeners := [[1]], state := (state ?w2)\<lparr>histories :=
                [[''Initialized!'' @ [CHR 0x0A]], replicate 1000 ''x'' @ [[CHR 0x0A], sigint_note]]\<rparr>\<rparr>"
  from viewProcessesInTabs_start [of "[(''npx'', [])]"] obtain es0 where
    start: "viewProcessesInTabs [(''npx'', [])] = (es0, Inr ?w0)"
    by auto
  have fold: "foldl (trackHistory_data 1000) [] (replicate 1000 ''x'') = replicate 1000 ''x''"
    using foldl_trackHistory_data [of 1000 "replicate 1000 ''x''"] by simp
  have out: "run (replicate 1000 (ChildData 0 ''x'')) ?w0 = ([], Inr ?w1)"
    using run_childData_inactive [of ?w0 0 "replicate 1000 ''x''"] by (simp add: fold)
  from stdinData_right [of ?w1] obtain es2 where
    right: "stdinData keys_right ?w1 = (es2, Inr ?w2)"
    by (auto simp add: maxCursor_def)
  from stdinData_child [of ?w2] obtain es3 where
    sigint: "stdinData keys_SIGINT ?w2 = (es3, Inr ?w3)"
    by (auto simp add: push_at_def)
  show "final_state (bind_io (viewProcessesInTabs [(''npx'', [])])
      (run (replicate 1000 (ChildData 0 ''x'') @ [StdinData keys_right, StdinData keys_SIGINT]))) =
     Some \<lparr>tab = 1, lines = 20, processes = [ChildProcess (''npx'', [])],
           histories = [[''Initialized!'' @ [CHR 0x0A]], replicate 1000 ''x'' @ [[CHR 0x0A], sigint_note]], cursor = 980\<rparr>"
    by (simp add: start [simplified] run_append out [simplified] right [simplified]
        sigint [simplified] bind_io_simps final_state_def)
next
  show "length (replicate 1000 ''x'' @ [[CHR 0x0A], sigint_note]) = 1002"
    by simp
qed

end
